theory Spec2Isabelle
  imports Complex_Main "HOL-Library.AList"
begin

section \<open>Data model\<close>

text \<open>
  A transaction is a Python dict. The only key the search engine and the API handlers
  inspect by name is \<^verbatim>\<open>'id'\<close>, an integer that may be missing; every other key is
  carried along unread. The dict is therefore a record with an optional identifier and an
  insertion-ordered association list for the remaining keys.
\<close>

datatype jval = JStr string | JNum rat

record txn =
  ident :: "int option"
  other_fields :: "(string \<times> jval) list"

datatype error = KeyError | IndexError | ZeroDivisionError

text \<open>
  \<^verbatim>\<open>SearchAlgorithms.__init__\<close> keeps the caller's list object and
  \<^verbatim>\<open>_prepare_data_structures\<close> writes into the dicts it holds, so the dicts live in an
  explicit heap: a list of transactions is a list of addresses, and two positions holding
  the same address hold the same Python object.
\<close>

type_synonym addr = nat
type_synonym heap = "addr \<Rightarrow> txn"

record engine =
  transactions :: "addr list"
  transactions_dict :: "int \<rightharpoonup> addr"
  sorted_transactions :: "addr list"

text \<open>\<^verbatim>\<open>time.time()\<close>: the k-th reading of the wall clock. The wall clock may step
  backwards, so the readings are not assumed to increase.\<close>

type_synonym clock = "nat \<Rightarrow> rat"

section \<open>Python floats\<close>

text \<open>
  A Python float is an IEEE 754 binary64 number; the finite ones are rationals. Every
  arithmetic operation on floats returns the exact result rounded to the nearest binary64
  number, ties to the even significand: 53 significant bits, and below \<open>2 ^ - 1022\<close> the
  fixed spacing \<open>2 ^ - 1074\<close>. Results beyond the largest binary64 number (which Python
  turns into infinities) are outside the model: no difference, sum or quotient of readings
  of \<^verbatim>\<open>time.time()\<close> comes near it.
\<close>

text \<open>The number of binary digits of a natural number.\<close>

fun bit_length :: "nat \<Rightarrow> nat" where
  "bit_length n = (if n = 0 then 0 else Suc (bit_length (n div 2)))"

text \<open>For a positive \<open>x\<close>, the \<open>e\<close> with \<open>2 ^ e \<le> x < 2 ^ (e + 1)\<close>.\<close>

definition float_exponent :: "rat \<Rightarrow> int" where
  "float_exponent x =
     (if 1 \<le> x then int (bit_length (nat \<lfloor>x\<rfloor>)) - 1
      else - int (bit_length (nat (\<lceil>1 / x\<rceil> - 1))))"

definition pow2 :: "int \<Rightarrow> rat" where
  "pow2 e = (if 0 \<le> e then 2 ^ nat e else 1 / 2 ^ nat (- e))"

text \<open>The nearest integer, a tie going to the even one.\<close>

definition round_half_even :: "rat \<Rightarrow> int" where
  "round_half_even s =
     (let r = \<lfloor>s\<rfloor>; f = s - of_int r
      in if f < 1 / 2 then r else if 1 / 2 < f then r + 1
         else if even r then r else r + 1)"

definition to_double :: "rat \<Rightarrow> rat" where
  "to_double x =
     (if x = 0 then 0
      else (let a = \<bar>x\<bar>;
                q = max (float_exponent a - 52) (- 1074);
                m = round_half_even (a / pow2 q)
            in sgn x * of_int m * pow2 q))"

text \<open>\<^verbatim>\<open>a - b\<close>, \<^verbatim>\<open>a + b\<close>, \<^verbatim>\<open>a * b\<close> and \<^verbatim>\<open>a / b\<close> (for a non-zero \<^verbatim>\<open>b\<close>) on floats. Python's
  true division of two ints is correctly rounded as well, and an int operand of a float
  operation is converted exactly (the ints here are list lengths, counts and 100).\<close>

definition float_sub :: "rat \<Rightarrow> rat \<Rightarrow> rat" where
  "float_sub a b = to_double (a - b)"

definition float_add :: "rat \<Rightarrow> rat \<Rightarrow> rat" where
  "float_add a b = to_double (a + b)"

definition float_mul :: "rat \<Rightarrow> rat \<Rightarrow> rat" where
  "float_mul a b = to_double (a * b)"

definition float_div :: "rat \<Rightarrow> rat \<Rightarrow> rat" where
  "float_div a b = to_double (a / b)"

section \<open>Index construction: \<^verbatim>\<open>_prepare_data_structures\<close>\<close>

text \<open>
  \<^verbatim>\<open>for i, transaction in enumerate(self.transactions):
      if 'id' not in transaction: transaction['id'] = i + 1\<close>
\<close>

fun assign_ids :: "nat \<Rightarrow> addr list \<Rightarrow> heap \<Rightarrow> heap" where
  "assign_ids i [] h = h"
| "assign_ids i (a # as) h =
     assign_ids (Suc i) as
       (if ident (h a) = None then h(a := (h a)\<lparr>ident := Some (int i + 1)\<rparr>) else h)"

text \<open>\<^verbatim>\<open>{t['id']: t for t in self.transactions}\<close>: one pass, a later record replaces an
  earlier one under the same key; \<^verbatim>\<open>t['id']\<close> raises KeyError on a dict without the key.\<close>

fun dict_of :: "heap \<Rightarrow> addr list \<Rightarrow> (int \<rightharpoonup> addr) \<Rightarrow> error + (int \<rightharpoonup> addr)" where
  "dict_of h [] m = Inr m"
| "dict_of h (a # as) m =
     (case ident (h a) of
        None \<Rightarrow> Inl KeyError
      | Some i \<Rightarrow> dict_of h as (m(i \<mapsto> a)))"

text \<open>\<^verbatim>\<open>sorted(self.transactions, key=lambda x: x['id'])\<close>: the key of every element is
  computed first (KeyError on a dict without \<^verbatim>\<open>'id'\<close>), then the builtin sorts ascending
  and stably; the builtin is modelled by the library's stable sort.\<close>

definition id_key :: "heap \<Rightarrow> addr \<Rightarrow> int" where
  "id_key h a = (case ident (h a) of Some i \<Rightarrow> i | None \<Rightarrow> 0)"

definition py_sorted :: "heap \<Rightarrow> addr list \<Rightarrow> error + addr list" where
  "py_sorted h as =
     (if list_ex (\<lambda>a. ident (h a) = None) as then Inl KeyError
      else Inr (sort_key (id_key h) as))"

definition prepare_data_structures :: "engine \<Rightarrow> heap \<Rightarrow> error + (engine \<times> heap)" where
  "prepare_data_structures self h =
     (let h' = assign_ids 0 (transactions self) h in
      case dict_of h' (transactions self) Map.empty of
        Inl e \<Rightarrow> Inl e
      | Inr d \<Rightarrow>
          (case py_sorted h' (transactions self) of
             Inl e \<Rightarrow> Inl e
           | Inr s \<Rightarrow> Inr (self\<lparr>transactions_dict := d, sorted_transactions := s\<rparr>, h')))"

text \<open>\<^verbatim>\<open>SearchAlgorithms.__init__(transactions_data)\<close>\<close>

definition SearchAlgorithms_init :: "addr list \<Rightarrow> heap \<Rightarrow> error + (engine \<times> heap)" where
  "SearchAlgorithms_init transactions_data h =
     prepare_data_structures
       \<lparr>transactions = transactions_data, transactions_dict = Map.empty,
        sorted_transactions = []\<rparr> h"

section \<open>Search strategies\<close>

text \<open>The body of the \<^verbatim>\<open>for\<close> loop of \<^verbatim>\<open>linear_search\<close>:
  \<^verbatim>\<open>transaction.get('id') == transaction_id\<close> is false on a dict without the key.\<close>

fun scan :: "heap \<Rightarrow> addr list \<Rightarrow> int \<Rightarrow> addr option" where
  "scan h [] transaction_id = None"
| "scan h (a # as) transaction_id =
     (if ident (h a) = Some transaction_id then Some a else scan h as transaction_id)"

definition linear_search ::
  "clock \<Rightarrow> engine \<Rightarrow> heap \<Rightarrow> int \<Rightarrow> nat \<Rightarrow> (addr option \<times> rat) \<times> nat" where
  "linear_search clk self h transaction_id k =
     (let start_time = clk k;
          r = scan h (transactions self) transaction_id;
          end_time = clk (k + 1)
      in ((r, float_sub end_time start_time), k + 2))"

definition dictionary_lookup ::
  "clock \<Rightarrow> engine \<Rightarrow> int \<Rightarrow> nat \<Rightarrow> (addr option \<times> rat) \<times> nat" where
  "dictionary_lookup clk self transaction_id k =
     (let start_time = clk k;
          r = transactions_dict self transaction_id;
          end_time = clk (k + 1)
      in ((r, float_sub end_time start_time), k + 2))"

text \<open>\<^verbatim>\<open>xs[i]\<close> on a Python list: positions 0 to len - 1, the same positions again
  as -len to -1, IndexError elsewhere.\<close>

definition py_index :: "'a list \<Rightarrow> int \<Rightarrow> error + 'a" where
  "py_index xs i =
     (if 0 \<le> i \<and> i < int (length xs) then Inr (xs ! nat i)
      else if - int (length xs) \<le> i \<and> i < 0 then Inr (xs ! nat (int (length xs) + i))
      else Inl IndexError)"

text \<open>The \<^verbatim>\<open>while left <= right\<close> loop of \<^verbatim>\<open>binary_search\<close>; \<^verbatim>\<open>//\<close> is floor
  division, as \<open>div\<close> on \<open>int\<close>.\<close>

function bisect :: "heap \<Rightarrow> addr list \<Rightarrow> int \<Rightarrow> int \<Rightarrow> int \<Rightarrow> error + addr option" where
  "bisect h xs transaction_id left right =
     (if left \<le> right then
        (let mid = (left + right) div 2 in
         case py_index xs mid of
           Inl e \<Rightarrow> Inl e
         | Inr a \<Rightarrow>
             (case ident (h a) of
                None \<Rightarrow> Inl KeyError
              | Some mid_id \<Rightarrow>
                  if mid_id = transaction_id then Inr (Some a)
                  else if mid_id < transaction_id
                    then bisect h xs transaction_id (mid + 1) right
                    else bisect h xs transaction_id left (mid - 1)))
      else Inr None)"
  by pat_completeness auto
termination
  by (relation "measure (\<lambda>(h, xs, t, l, r). nat (r - l + 1))") auto

definition binary_search ::
  "clock \<Rightarrow> engine \<Rightarrow> heap \<Rightarrow> int \<Rightarrow> nat \<Rightarrow> error + ((addr option \<times> rat) \<times> nat)" where
  "binary_search clk self h transaction_id k =
     (let start_time = clk k in
      case bisect h (sorted_transactions self) transaction_id 0
             (int (length (sorted_transactions self)) - 1) of
        Inl e \<Rightarrow> Inl e
      | Inr r \<Rightarrow> (let end_time = clk (k + 1) in Inr ((r, float_sub end_time start_time), k + 2)))"

section \<open>Comparison and benchmark reports\<close>

text \<open>The keys \<^verbatim>\<open>'linear_search'\<close>, \<^verbatim>\<open>'dictionary_lookup'\<close> and \<^verbatim>\<open>'binary_search'\<close>
  of the report dicts.\<close>

datatype algo = LinearSearch | DictionaryLookup | BinarySearch

record algo_result =
  found :: bool
  execution_time :: rat
  time_complexity :: string
  space_complexity :: string
  result :: "addr option"

text \<open>A speed entry is the string \<^verbatim>\<open>f"{a / b:.2f}x faster"\<close> or \<^verbatim>\<open>"N/A"\<close>.\<close>

record speed_ratios =
  dictionary_vs_linear :: string
  binary_vs_linear :: string
  dictionary_vs_binary :: string

record performance =
  fastest_algorithm :: algo
  slowest_algorithm :: algo
  speed_improvement :: speed_ratios
  dataset_size :: nat

record comparison =
  cmp_transaction_id :: int
  algorithms :: "algo \<Rightarrow> algo_result"
  performance_analysis :: performance

text \<open>The decimal digits of a natural number, as \<^verbatim>\<open>str\<close> writes them.\<close>

definition digit_char :: "nat \<Rightarrow> char" where
  "digit_char d = ''0123456789'' ! d"

fun digits :: "nat \<Rightarrow> string" where
  "digits n = (if n < 10 then [digit_char n] else digits (n div 10) @ [digit_char (n mod 10)])"

text \<open>\<^verbatim>\<open>f"{x:.2f}"\<close> on a finite float: the exact value of the float rounded to two
  decimals, a tie going to the even last digit, with a minus sign for a negative value
  (also when the digits are all zero).\<close>

definition format_2f :: "rat \<Rightarrow> string" where
  "format_2f x =
     (let h = nat (round_half_even (\<bar>x\<bar> * 100))
      in (if x < 0 then ''-'' else []) @ digits (h div 100) @ ''.'' @
         [digit_char (h mod 100 div 10), digit_char (h mod 10)])"

text \<open>\<^verbatim>\<open>f"{num / den:.2f}x faster" if den > 0 else "N/A"\<close>: the division is evaluated
  only in the first branch.\<close>

definition speed_ratio :: "rat \<Rightarrow> rat \<Rightarrow> string" where
  "speed_ratio num den =
     (if den > 0 then format_2f (float_div num den) @ ''x faster'' else ''N/A'')"

definition compare_algorithms ::
  "clock \<Rightarrow> engine \<Rightarrow> heap \<Rightarrow> int \<Rightarrow> nat \<Rightarrow> error + (comparison \<times> nat)" where
  "compare_algorithms clk self h transaction_id k =
     (let ((linear_result, linear_time), k1) = linear_search clk self h transaction_id k;
          ((dict_result, dict_time), k2) = dictionary_lookup clk self transaction_id k1
      in case binary_search clk self h transaction_id k2 of
           Inl e \<Rightarrow> Inl e
         | Inr ((binary_result, binary_time), k3) \<Rightarrow>
            (let fastest_time = min (min linear_time dict_time) binary_time;
                 slowest_time = max (max linear_time dict_time) binary_time
             in Inr
              (\<lparr>cmp_transaction_id = transaction_id,
                algorithms = (\<lambda>name. case name of
                   LinearSearch \<Rightarrow>
                     \<lparr>found = (linear_result \<noteq> None), execution_time = linear_time,
                      time_complexity = ''O(n)'', space_complexity = ''O(1)'',
                      result = linear_result\<rparr>
                 | DictionaryLookup \<Rightarrow>
                     \<lparr>found = (dict_result \<noteq> None), execution_time = dict_time,
                      time_complexity = ''O(1)'', space_complexity = ''O(n)'',
                      result = dict_result\<rparr>
                 | BinarySearch \<Rightarrow>
                     \<lparr>found = (binary_result \<noteq> None), execution_time = binary_time,
                      time_complexity = ''O(log n)'', space_complexity = ''O(1)'',
                      result = binary_result\<rparr>),
                performance_analysis =
                  \<lparr>fastest_algorithm =
                     (if dict_time = fastest_time then DictionaryLookup
                      else if binary_time = fastest_time then BinarySearch
                      else LinearSearch),
                   slowest_algorithm =
                     (if linear_time = slowest_time then LinearSearch
                      else if binary_time = slowest_time then BinarySearch
                      else DictionaryLookup),
                   speed_improvement =
                     \<lparr>dictionary_vs_linear = speed_ratio linear_time dict_time,
                      binary_vs_linear = speed_ratio linear_time binary_time,
                      dictionary_vs_binary = speed_ratio binary_time dict_time\<rparr>,
                   dataset_size = length (transactions self)\<rparr>\<rparr>, k3)))"

record algo_stats =
  total_time :: rat
  avg_time :: rat
  success_rate :: rat

record benchmark_results =
  test_cases :: nat
  bench_dataset_size :: nat
  bench_algorithms :: "algo \<Rightarrow> algo_stats"
  detailed_results :: "comparison list"

text \<open>The inner loop \<^verbatim>\<open>for algo_name, algo_data in comparison['algorithms'].items()\<close>, in
  the insertion order of the three keys.\<close>

definition aggregate :: "comparison \<Rightarrow> (algo \<Rightarrow> algo_stats) \<Rightarrow> (algo \<Rightarrow> algo_stats)" where
  "aggregate cmp stats =
     fold (\<lambda>algo_name st.
             let algo_data = algorithms cmp algo_name;
                 s1 = (st algo_name)\<lparr>total_time :=
                        float_add (total_time (st algo_name)) (execution_time algo_data)\<rparr>;
                 s2 = (if found algo_data then s1\<lparr>success_rate := success_rate s1 + 1\<rparr>
                       else s1)
             in st(algo_name := s2))
          [LinearSearch, DictionaryLookup, BinarySearch] stats"

text \<open>The loop \<^verbatim>\<open>for test_id in test_ids\<close>; an exception of a strategy ends it.\<close>

fun bench_loop ::
  "clock \<Rightarrow> engine \<Rightarrow> heap \<Rightarrow> int list \<Rightarrow> benchmark_results \<Rightarrow> nat
    \<Rightarrow> error + (benchmark_results \<times> nat)" where
  "bench_loop clk self h [] br k = Inr (br, k)"
| "bench_loop clk self h (test_id # rest) br k =
     (case compare_algorithms clk self h test_id k of
        Inl e \<Rightarrow> Inl e
      | Inr (cmp, k') \<Rightarrow>
          bench_loop clk self h rest
            (br\<lparr>detailed_results := detailed_results br @ [cmp],
                bench_algorithms := aggregate cmp (bench_algorithms br)\<rparr>) k')"

text \<open>Python's \<^verbatim>\<open>x / len(test_ids)\<close>: ZeroDivisionError on a zero divisor, the rounded
  quotient otherwise.\<close>

definition py_truediv :: "rat \<Rightarrow> nat \<Rightarrow> error + rat" where
  "py_truediv x n =
     (if n = 0 then Inl ZeroDivisionError else Inr (float_div x (of_nat n)))"

text \<open>The loop \<^verbatim>\<open>for algo_name in benchmark_results['algorithms']\<close>.\<close>

fun calculate_averages ::
  "algo list \<Rightarrow> nat \<Rightarrow> (algo \<Rightarrow> algo_stats) \<Rightarrow> error + (algo \<Rightarrow> algo_stats)" where
  "calculate_averages [] n stats = Inr stats"
| "calculate_averages (algo_name # rest) n stats =
     (case py_truediv (total_time (stats algo_name)) n of
        Inl e \<Rightarrow> Inl e
      | Inr avg \<Rightarrow>
          (case py_truediv (success_rate (stats algo_name)) n of
             Inl e \<Rightarrow> Inl e
           | Inr rate \<Rightarrow>
               calculate_averages rest n
                 (stats(algo_name :=
                    (stats algo_name)\<lparr>avg_time := avg,
                      success_rate := float_mul rate 100\<rparr>))))"

definition benchmark_algorithms ::
  "clock \<Rightarrow> engine \<Rightarrow> heap \<Rightarrow> int list \<Rightarrow> nat \<Rightarrow> error + (benchmark_results \<times> nat)" where
  "benchmark_algorithms clk self h test_ids k =
     (let benchmark_results =
            \<lparr>test_cases = length test_ids,
             bench_dataset_size = length (transactions self),
             bench_algorithms = (\<lambda>name. \<lparr>total_time = 0, avg_time = 0, success_rate = 0\<rparr>),
             detailed_results = []\<rparr>
      in case bench_loop clk self h test_ids benchmark_results k of
           Inl e \<Rightarrow> Inl e
         | Inr (br, k') \<Rightarrow>
             (case calculate_averages [LinearSearch, DictionaryLookup, BinarySearch]
                     (length test_ids) (bench_algorithms br) of
                Inl e \<Rightarrow> Inl e
              | Inr stats \<Rightarrow> Inr (br\<lparr>bench_algorithms := stats\<rparr>, k')))"

section \<open>The API handler's store: \<^verbatim>\<open>SMSAPIHandler\<close>\<close>

text \<open>
  The handler keeps the list \<^verbatim>\<open>self.transactions\<close> and the dict
  \<^verbatim>\<open>self.transactions_dict\<close>. Every dict it stores is freshly parsed JSON and is never
  written after it has been stored, so the records are held by value. Authentication
  and routing are passed: each handler below starts where its request has been
  authenticated and its path parsed, and returns the status code with the new state.
\<close>

record api_state =
  api_transactions :: "txn list"
  api_transactions_dict :: "int \<rightharpoonup> txn"

text \<open>\<^verbatim>\<open>for i, transaction in enumerate(self.transactions):
      transaction['id'] = i + 1
      self.transactions_dict[transaction['id']] = transaction\<close>\<close>

fun load_loop :: "nat \<Rightarrow> txn list \<Rightarrow> (int \<rightharpoonup> txn) \<Rightarrow> txn list \<times> (int \<rightharpoonup> txn)" where
  "load_loop i [] d = ([], d)"
| "load_loop i (transaction # rest) d =
     (let t = transaction\<lparr>ident := Some (int i + 1)\<rparr>;
          (ts, d') = load_loop (Suc i) rest (d(int i + 1 \<mapsto> t))
      in (t # ts, d'))"

text \<open>\<^verbatim>\<open>load_transactions\<close>: the argument is the parsed content of the file, \<open>None\<close>
  when opening it raises FileNotFoundError.\<close>

definition load_transactions :: "txn list option \<Rightarrow> api_state" where
  "load_transactions file =
     (case file of
        None \<Rightarrow> \<lparr>api_transactions = [], api_transactions_dict = Map.empty\<rparr>
      | Some loaded \<Rightarrow>
          (let (ts, d) = load_loop 0 loaded Map.empty
           in \<lparr>api_transactions = ts, api_transactions_dict = d\<rparr>))"











section \<open>Concrete inputs\<close>

text \<open>A three-record list whose middle record has no identifier, and a clock whose six
  readings give the three strategies the durations 1, 2 and 3.\<close>

definition example_heap :: heap where
  "example_heap =
     (\<lambda>a. \<lparr>ident = None, other_fields = []\<rparr>)
       (0 := \<lparr>ident = Some 3, other_fields = [(''body'', JStr ''a'')]\<rparr>,
        2 := \<lparr>ident = Some 1, other_fields = [(''body'', JStr ''c'')]\<rparr>)"

definition example_store :: "addr list" where
  "example_store = [0, 1, 2]"

definition example_clock :: clock where
  "example_clock n = (if n = 0 then 0 else if n \<le> 2 then 1 else if n \<le> 4 then 3 else 6)"

text \<open>A list in which the first and the last record carry the same identifier.\<close>

definition example_dup_heap :: heap where
  "example_dup_heap =
     (\<lambda>a. \<lparr>ident = None, other_fields = []\<rparr>)
       (0 := \<lparr>ident = Some 2, other_fields = [(''body'', JStr ''first'')]\<rparr>,
        1 := \<lparr>ident = Some 1, other_fields = []\<rparr>,
        2 := \<lparr>ident = Some 2, other_fields = [(''body'', JStr ''second'')]\<rparr>)"

text \<open>The engine object as \<^verbatim>\<open>__init__\<close> hands it to \<^verbatim>\<open>_prepare_data_structures\<close>.\<close>

definition example_engine :: engine where
  "example_engine =
     \<lparr>transactions = example_store, transactions_dict = Map.empty, sorted_transactions = []\<rparr>"

definition empty_engine :: engine where
  "empty_engine = \<lparr>transactions = [], transactions_dict = Map.empty, sorted_transactions = []\<rparr>"

text \<open>The engine and the heap that the constructor yields on the example list.\<close>

definition example_built_heap :: heap where
  "example_built_heap = example_heap(1 := \<lparr>ident = Some 2, other_fields = []\<rparr>)"

definition example_built_engine :: engine where
  "example_built_engine =
     \<lparr>transactions = [0, 1, 2],
      transactions_dict = [3 \<mapsto> 0, 2 \<mapsto> 1, 1 \<mapsto> 2],
      sorted_transactions = [2, 1, 0]\<rparr>"



text \<open>A clock that does not advance (every duration is zero), and the Comparison Report
  of a query on the empty engine under the example clock.\<close>

definition example_frozen_clock :: clock where
  "example_frozen_clock n = 5"

definition example_report :: comparison where
  "example_report =
     fst (projr (compare_algorithms example_clock empty_engine example_heap 1 0))"

text \<open>A batch of three identifiers, of which the example engine holds the first only,
  and its Benchmark Report.\<close>

definition example_batch :: "int list" where
  "example_batch = [1, 98, 99]"

definition example_benchmark :: benchmark_results where
  "example_benchmark =
     fst (projr (benchmark_algorithms example_clock example_built_engine example_built_heap
                   example_batch 0))"

section \<open>The report's analysis in the words of the specification\<close>

text \<open>The elapsed time a Comparison Report records for a strategy.\<close>

definition elapsed :: "comparison \<Rightarrow> algo \<Rightarrow> rat" where
  "elapsed rep a = execution_time (algorithms rep a)"

text \<open>Fastest: among the strategies whose elapsed time is minimal, the first in the
  precedence direct keyed lookup, sorted bisection, unordered scan. Slowest: among those
  whose elapsed time is maximal, the first in the opposite precedence.\<close>

definition spec_fastest :: "comparison \<Rightarrow> algo option" where
  "spec_fastest rep =
     List.find
       (\<lambda>a. list_all (\<lambda>b. elapsed rep a \<le> elapsed rep b)
               [LinearSearch, DictionaryLookup, BinarySearch])
       [DictionaryLookup, BinarySearch, LinearSearch]"

definition spec_slowest :: "comparison \<Rightarrow> algo option" where
  "spec_slowest rep =
     List.find
       (\<lambda>a. list_all (\<lambda>b. elapsed rep b \<le> elapsed rep a)
               [LinearSearch, DictionaryLookup, BinarySearch])
       [LinearSearch, BinarySearch, DictionaryLookup]"

text \<open>The number of Comparison Reports in which a strategy found a record.\<close>

definition hits :: "algo \<Rightarrow> comparison list \<Rightarrow> nat" where
  "hits a reports = length (filter (\<lambda>rep. found (algorithms rep a)) reports)"

section \<open>Floats: evaluated examples\<close>

declare bisect.simps [simp del]

declare bit_length.simps [simp del]

declare digits.simps [simp del]

text \<open>The floats that Python prints as \<^verbatim>\<open>0.1\<close>, \<^verbatim>\<open>33.333333333333336\<close> (for
  \<^verbatim>\<open>100 / 3\<close>) and \<^verbatim>\<open>55.00000000000001\<close> (for \<^verbatim>\<open>11 / 20 * 100\<close>), and the strings of
  \<^verbatim>\<open>f"{0.125:.2f}"\<close> and \<^verbatim>\<open>f"{-0.001:.2f}"\<close>.\<close>

lemma to_double_examples:
  "to_double (1 / 10) = 3602879701896397 / 36028797018963968"
  "to_double (100 / 3) = 4691249611844267 / 140737488355328"
  "float_div 11 20 = 2476979795053773 / 4503599627370496"
  "float_mul (2476979795053773 / 4503599627370496) 100 = 7740561859543041 / 140737488355328"
  by code_simp+

lemma format_2f_examples:
  "format_2f (1 / 8) = ''0.12''" "format_2f (- 1 / 1000) = ''-0.00''"
  by code_simp+

text \<open>The durations between the readings of the example clocks.\<close>

lemma float_sub_examples:
  "float_sub 1 0 = 1" "float_sub 3 1 = 2" "float_sub 6 3 = 3" "float_sub 5 5 = 0"
  by code_simp+

section \<open>Index construction: auxiliary facts\<close>

lemma assign_ids_notin: "a \<notin> set as \<Longrightarrow> assign_ids i as h a = h a"
  by (induction as arbitrary: i h) auto

lemma assign_ids_keep: "ident (h a) \<noteq> None \<Longrightarrow> assign_ids i as h a = h a"
  by (induction as arbitrary: i h) auto

lemma assign_ids_has_id: "a \<in> set as \<Longrightarrow> ident (assign_ids i as h a) \<noteq> None"
proof (induction as arbitrary: i h)
  case Nil
  then show ?case by simp
next
  case (Cons b as)
  show ?case
  proof (cases "a = b")
    case True
    let ?h = "if ident (h b) = None then h(b := (h b)\<lparr>ident := Some (int i + 1)\<rparr>) else h"
    have "ident (?h b) \<noteq> None" by simp
    then have "assign_ids (Suc i) as ?h b = ?h b" by (rule assign_ids_keep)
    with True show ?thesis by simp
  next
    case False
    with Cons.prems have "a \<in> set as" by simp
    then show ?thesis using Cons.IH by simp
  qed
qed

lemma assign_ids_other_fields: "other_fields (assign_ids i as h a) = other_fields (h a)"
  by (induction as arbitrary: i h) auto

lemma assign_ids_first:
  "a \<notin> set pre \<Longrightarrow> ident (h a) = None \<Longrightarrow>
   assign_ids i (pre @ a # post) h a = (h a)\<lparr>ident := Some (int (i + length pre) + 1)\<rparr>"
proof (induction pre arbitrary: i h)
  case Nil
  let ?h = "h(a := (h a)\<lparr>ident := Some (int i + 1)\<rparr>)"
  have "ident (?h a) \<noteq> None" by simp
  then have "assign_ids (Suc i) post ?h a = ?h a" by (rule assign_ids_keep)
  with Nil show ?case by simp
next
  case (Cons b pre)
  then show ?case by auto
qed

lemma dict_of_total:
  "\<forall>a\<in>set as. ident (h a) \<noteq> None \<Longrightarrow> \<exists>d. dict_of h as m = Inr d"
  by (induction as arbitrary: m) (auto split: option.splits)

lemma dict_of_absent:
  "dict_of h as m = Inr d \<Longrightarrow> \<forall>a\<in>set as. ident (h a) \<noteq> Some k \<Longrightarrow> d k = m k"
  by (induction as arbitrary: m) (auto split: option.splits)

lemma dict_of_present:
  "dict_of h as m = Inr d \<Longrightarrow> a \<in> set as \<Longrightarrow> ident (h a) = Some k \<Longrightarrow>
   \<exists>b\<in>set as. ident (h b) = Some k \<and> d k = Some b"
proof (induction as arbitrary: m a)
  case Nil
  then show ?case by simp
next
  case (Cons c as)
  from Cons.prems(1) obtain i where i: "ident (h c) = Some i"
    and rest: "dict_of h as (m(i \<mapsto> c)) = Inr d"
    by (auto split: option.splits)
  show ?case
  proof (cases "\<exists>b\<in>set as. ident (h b) = Some k")
    case True
    then obtain b where "b \<in> set as" "ident (h b) = Some k" by blast
    from Cons.IH[OF rest this] show ?thesis by auto
  next
    case False
    with Cons.prems have ac: "a = c" by auto
    from False have "d k = (m(i \<mapsto> c)) k" using dict_of_absent[OF rest] by blast
    with ac i Cons.prems(3) show ?thesis by auto
  qed
qed

lemma scan_Some: "scan h as k = Some a \<Longrightarrow> a \<in> set as \<and> ident (h a) = Some k"
  by (induction as) (auto split: if_splits)

lemma scan_None: "scan h as k = None \<longleftrightarrow> (\<forall>a\<in>set as. ident (h a) \<noteq> Some k)"
  by (induction as) auto


lemma py_index_in_range:
  "0 \<le> i \<Longrightarrow> i < int (length xs) \<Longrightarrow> py_index xs i = Inr (xs ! nat i)"
  by (simp add: py_index_def)

lemma id_key_Some: "ident (h a) = Some i \<Longrightarrow> id_key h a = i"
  by (simp add: id_key_def)

lemma sorted_key_nth:
  "sorted (map f xs) \<Longrightarrow> i \<le> j \<Longrightarrow> j < length xs \<Longrightarrow> f (xs ! i) \<le> f (xs ! j)"
  using sorted_nth_mono[of "map f xs" i j] by simp

lemma bisect_spec:
  "sorted (map (id_key h) xs) \<Longrightarrow> \<forall>a\<in>set xs. ident (h a) \<noteq> None \<Longrightarrow>
    0 \<le> left \<Longrightarrow> right < int (length xs) \<Longrightarrow>
    (\<forall>i. 0 \<le> i \<and> i < left \<longrightarrow> id_key h (xs ! nat i) < k) \<Longrightarrow>
    (\<forall>i. right < i \<and> i < int (length xs) \<longrightarrow> k < id_key h (xs ! nat i)) \<Longrightarrow>
    \<exists>r. bisect h xs k left right = Inr r \<and>
      (case r of Some a \<Rightarrow> a \<in> set xs \<and> ident (h a) = Some k
               | None \<Rightarrow> \<forall>a\<in>set xs. ident (h a) \<noteq> Some k)"
proof (induction h xs k left right rule: bisect.induct)
  case (1 h xs k left right)
  note srt = "1.prems"(1) and ids = "1.prems"(2) and left0 = "1.prems"(3)
    and right_len = "1.prems"(4) and low0 = "1.prems"(5) and high0 = "1.prems"(6)
  note unfold = bisect.simps[of h xs k left right]
  show ?case
  proof (cases "left \<le> right")
    case False
    have "\<forall>a\<in>set xs. ident (h a) \<noteq> Some k"
    proof
      fix a assume "a \<in> set xs"
      then obtain i where i: "i < length xs" "xs ! i = a" by (auto simp: in_set_conv_nth)
      have "id_key h a \<noteq> k"
      proof (cases "int i < left")
        case True
        then have "id_key h (xs ! nat (int i)) < k"
          using low0[rule_format, of "int i"] by simp
        with i show ?thesis by simp
      next
        case F: False
        with False have "right < int i" by simp
        then have "k < id_key h (xs ! nat (int i))"
          using high0[rule_format, of "int i"] i by simp
        with i show ?thesis by simp
      qed
      then show "ident (h a) \<noteq> Some k" by (auto simp: id_key_def)
    qed
    with False show ?thesis by (simp add: unfold)
  next
    case True
    define mid where "mid = (left + right) div 2"
    have mid: "left \<le> mid" "mid \<le> right" using True by (auto simp: mid_def)
    with left0 right_len have rng: "0 \<le> mid" "mid < int (length xs)" by auto
    define a where "a = xs ! nat mid"
    have idx: "py_index xs mid = Inr a" unfolding a_def by (rule py_index_in_range[OF rng])
    have a_in: "a \<in> set xs" using rng by (simp add: a_def)
    with ids obtain mid_id where mid_id: "ident (h a) = Some mid_id" by auto
    have key_a: "id_key h a = mid_id" using mid_id by (simp add: id_key_def)
    consider (eq) "mid_id = k" | (lt) "mid_id < k" | (gt) "k < mid_id" by linarith
    then show ?thesis
    proof cases
      case eq
      have "bisect h xs k left right = Inr (Some a)"
        using True idx mid_id eq by (simp add: unfold Let_def mid_def[symmetric])
      with a_in mid_id eq show ?thesis by simp
    next
      case lt
      have step: "bisect h xs k left right = bisect h xs k (mid + 1) right"
        using True idx mid_id lt by (simp add: unfold Let_def mid_def[symmetric])
      have low: "\<forall>i. 0 \<le> i \<and> i < mid + 1 \<longrightarrow> id_key h (xs ! nat i) < k"
      proof (intro allI impI)
        fix i assume "0 \<le> i \<and> i < mid + 1"
        then have "nat i \<le> nat mid" "nat mid < length xs" using rng by auto
        from sorted_key_nth[OF srt this] have "id_key h (xs ! nat i) \<le> mid_id"
          using key_a by (simp add: a_def)
        with lt show "id_key h (xs ! nat i) < k" by simp
      qed
      have "\<exists>r. bisect h xs k (mid + 1) right = Inr r \<and>
        (case r of Some a \<Rightarrow> a \<in> set xs \<and> ident (h a) = Some k
                 | None \<Rightarrow> \<forall>a\<in>set xs. ident (h a) \<noteq> Some k)"
      proof (rule "1.IH"(1)[OF True mid_def idx mid_id _ lt srt ids])
        show "mid_id \<noteq> k" using lt by simp
        show "0 \<le> mid + 1" using rng by simp
        show "right < int (length xs)" by (rule right_len)
        show "\<forall>i. 0 \<le> i \<and> i < mid + 1 \<longrightarrow> id_key h (xs ! nat i) < k" by (rule low)
        show "\<forall>i. right < i \<and> i < int (length xs) \<longrightarrow> k < id_key h (xs ! nat i)"
          by (rule high0)
      qed
      with step show ?thesis by simp
    next
      case gt
      have step: "bisect h xs k left right = bisect h xs k left (mid - 1)"
        using True idx mid_id gt by (simp add: unfold Let_def mid_def[symmetric])
      have high: "\<forall>i. mid - 1 < i \<and> i < int (length xs) \<longrightarrow> k < id_key h (xs ! nat i)"
      proof (intro allI impI)
        fix i assume "mid - 1 < i \<and> i < int (length xs)"
        then have "nat mid \<le> nat i" "nat i < length xs" using rng by auto
        from sorted_key_nth[OF srt this] have "mid_id \<le> id_key h (xs ! nat i)"
          using key_a by (simp add: a_def)
        with gt show "k < id_key h (xs ! nat i)" by simp
      qed
      have "\<exists>r. bisect h xs k left (mid - 1) = Inr r \<and>
        (case r of Some a \<Rightarrow> a \<in> set xs \<and> ident (h a) = Some k
                 | None \<Rightarrow> \<forall>a\<in>set xs. ident (h a) \<noteq> Some k)"
      proof (rule "1.IH"(2)[OF True mid_def idx mid_id _ _ srt ids])
        show "mid_id \<noteq> k" using gt by simp
        show "\<not> mid_id < k" using gt by simp
        show "0 \<le> left" by (rule left0)
        show "mid - 1 < int (length xs)" using rng by simp
        show "\<forall>i. 0 \<le> i \<and> i < left \<longrightarrow> id_key h (xs ! nat i) < k" by (rule low0)
        show "\<forall>i. mid - 1 < i \<and> i < int (length xs) \<longrightarrow> k < id_key h (xs ! nat i)"
          by (rule high)
      qed
      with step show ?thesis by simp
    qed
  qed
qed


lemma py_sorted_total:
  "\<forall>a\<in>set as. ident (h a) \<noteq> None \<Longrightarrow> py_sorted h as = Inr (sort_key (id_key h) as)"
  by (auto simp: py_sorted_def list_ex_iff)

lemma prepare_result:
  "\<exists>d. dict_of (assign_ids 0 (transactions self) h) (transactions self) Map.empty = Inr d \<and>
     prepare_data_structures self h =
       Inr (self\<lparr>transactions_dict := d,
                 sorted_transactions :=
                   sort_key (id_key (assign_ids 0 (transactions self) h)) (transactions self)\<rparr>,
            assign_ids 0 (transactions self) h)"
proof -
  let ?h = "assign_ids 0 (transactions self) h"
  have ids: "\<forall>a\<in>set (transactions self). ident (?h a) \<noteq> None"
    using assign_ids_has_id by blast
  from dict_of_total[OF ids] obtain d
    where d: "dict_of ?h (transactions self) Map.empty = Inr d" by blast
  show ?thesis
    using d py_sorted_total[OF ids] by (simp add: prepare_data_structures_def Let_def)
qed

lemma prepare_Inr:
  assumes "prepare_data_structures self h = Inr (self', h')"
  shows "h' = assign_ids 0 (transactions self) h"
    and "transactions self' = transactions self"
    and "sorted_transactions self' = sort_key (id_key h') (transactions self)"
    and "dict_of h' (transactions self) Map.empty = Inr (transactions_dict self')"
proof -
  from prepare_result[of self h] assms obtain d where
    d: "dict_of (assign_ids 0 (transactions self) h) (transactions self) Map.empty = Inr d"
    and e: "self' = self\<lparr>transactions_dict := d,
                 sorted_transactions :=
                   sort_key (id_key (assign_ids 0 (transactions self) h)) (transactions self)\<rparr>"
    and h': "h' = assign_ids 0 (transactions self) h"
    by auto
  show "h' = assign_ids 0 (transactions self) h" by (rule h')
  show "transactions self' = transactions self" using e by simp
  show "sorted_transactions self' = sort_key (id_key h') (transactions self)"
    using e h' by simp
  show "dict_of h' (transactions self) Map.empty = Inr (transactions_dict self')"
    using e h' d by simp
qed

lemma bisect_whole:
  assumes "sorted (map (id_key h) xs)" and "\<forall>a\<in>set xs. ident (h a) \<noteq> None"
  shows "\<exists>r. bisect h xs k 0 (int (length xs) - 1) = Inr r \<and>
      (case r of Some a \<Rightarrow> a \<in> set xs \<and> ident (h a) = Some k
               | None \<Rightarrow> \<forall>a\<in>set xs. ident (h a) \<noteq> Some k)"
  by (rule bisect_spec[OF assms]) auto

lemma example_prepared:
  "assign_ids 0 example_store example_heap =
     example_heap(1 := \<lparr>ident = Some 2, other_fields = []\<rparr>)"
  by (simp add: example_store_def example_heap_def)

section \<open>Agreement of the three strategies\<close>

text \<open>
  Claim C1. On an engine built by the constructor, when no two records of the store carry
  the same identifier after index construction, \<^verbatim>\<open>linear_search\<close>,
  \<^verbatim>\<open>dictionary_lookup\<close> and \<^verbatim>\<open>binary_search\<close> return, for every queried identifier,
  the same verdict and, when found, the same record (the same object); the binary search
  raises nothing.
\<close>

theorem strategies_agree:
  assumes init: "SearchAlgorithms_init store h = Inr (self, h')"
    and uniq: "inj_on (\<lambda>a. ident (h' a)) (set (transactions self))"
  shows "\<exists>r. fst (fst (linear_search clk self h' I k)) = r \<and>
             fst (fst (dictionary_lookup clk self I k)) = r \<and>
             binary_search clk self h' I k = Inr ((r, float_sub (clk (k + 1)) (clk k)), k + 2)"
proof -
  let ?self0 = "\<lparr>transactions = store, transactions_dict = Map.empty,
                  sorted_transactions = []\<rparr>"
  from init have prep: "prepare_data_structures ?self0 h = Inr (self, h')"
    by (simp add: SearchAlgorithms_init_def)
  note facts = prepare_Inr[OF prep]
  have tr: "transactions self = store" using facts(2) by simp
  have h': "h' = assign_ids 0 store h" using facts(1) by simp
  have srt_eq: "sorted_transactions self = sort_key (id_key h') store" using facts(3) by simp
  have dct: "dict_of h' store Map.empty = Inr (transactions_dict self)" using facts(4) by simp
  have ids: "\<forall>a\<in>set store. ident (h' a) \<noteq> None"
    unfolding h' using assign_ids_has_id by blast
  have "sorted (map (id_key h') (sorted_transactions self))"
    by (simp add: srt_eq)
  moreover have "\<forall>a\<in>set (sorted_transactions self). ident (h' a) \<noteq> None"
    using ids by (simp add: srt_eq)
  ultimately obtain rb where
    rb: "bisect h' (sorted_transactions self) I 0 (int (length (sorted_transactions self)) - 1)
           = Inr rb"
    and rb_spec: "case rb of Some a \<Rightarrow> a \<in> set (sorted_transactions self) \<and> ident (h' a) = Some I
               | None \<Rightarrow> \<forall>a\<in>set (sorted_transactions self). ident (h' a) \<noteq> Some I"
    using bisect_whole[of h' "sorted_transactions self" I] by blast
  have bs: "binary_search clk self h' I k = Inr ((rb, float_sub (clk (k + 1)) (clk k)), k + 2)"
    using rb by (simp add: binary_search_def)
  have ls: "fst (fst (linear_search clk self h' I k)) = scan h' store I"
    by (simp add: linear_search_def tr)
  have dl: "fst (fst (dictionary_lookup clk self I k)) = transactions_dict self I"
    by (simp add: dictionary_lookup_def)
  have set_srt: "set (sorted_transactions self) = set store" by (simp add: srt_eq)
  show ?thesis
  proof (cases "\<exists>a\<in>set store. ident (h' a) = Some I")
    case False
    then have none: "\<forall>a\<in>set store. ident (h' a) \<noteq> Some I" by blast
    have "scan h' store I = None" using none by (simp add: scan_None)
    moreover have "transactions_dict self I = None"
      using dict_of_absent[OF dct none] by simp
    moreover have "rb = None"
      using rb_spec none set_srt by (cases rb) auto
    ultimately show ?thesis using ls dl bs by simp
  next
    case True
    then obtain a where a: "a \<in> set store" "ident (h' a) = Some I" by blast
    have same: "b = a" if "b \<in> set store" "ident (h' b) = Some I" for b
    proof -
      have "ident (h' b) = ident (h' a)" using that a by simp
      with uniq that a show ?thesis unfolding tr inj_on_def by blast
    qed
    have "scan h' store I \<noteq> None" using a by (auto simp: scan_None)
    then obtain b1 where b1: "scan h' store I = Some b1" by auto
    from scan_Some[OF b1] same have "b1 = a" by blast
    from dict_of_present[OF dct a] obtain b2 where
      b2: "b2 \<in> set store" "ident (h' b2) = Some I" "transactions_dict self I = Some b2"
      by blast
    with same have "b2 = a" by blast
    have "rb \<noteq> None" using rb_spec a set_srt by (cases rb) auto
    then obtain b3 where b3: "rb = Some b3" by auto
    with rb_spec set_srt same have "b3 = a" by auto
    show ?thesis using ls dl bs b1 b2(3) b3 \<open>b1 = a\<close> \<open>b2 = a\<close> \<open>b3 = a\<close> by simp
  qed
qed

theorem strategies_agree_witness:
  "\<exists>self h'. SearchAlgorithms_init example_store example_heap = Inr (self, h') \<and>
     inj_on (\<lambda>a. ident (h' a)) (set (transactions self)) \<and>
     fst (fst (linear_search example_clock self h' 2 0)) = Some 1 \<and>
     fst (fst (dictionary_lookup example_clock self 2 0)) = Some 1 \<and>
     binary_search example_clock self h' 2 0 = Inr ((Some 1, 1), 2)"
proof -
  let ?self0 = "\<lparr>transactions = example_store, transactions_dict = Map.empty,
                  sorted_transactions = []\<rparr>"
  from prepare_result[of ?self0 example_heap] obtain self h'
    where init: "SearchAlgorithms_init example_store example_heap = Inr (self, h')"
    by (auto simp: SearchAlgorithms_init_def)
  then have prep: "prepare_data_structures ?self0 example_heap = Inr (self, h')"
    by (simp add: SearchAlgorithms_init_def)
  have tr: "transactions self = example_store" using prepare_Inr(2)[OF prep] by simp
  have h': "h' = example_heap(1 := \<lparr>ident = Some 2, other_fields = []\<rparr>)"
    using prepare_Inr(1)[OF prep] by (simp add: example_prepared)
  have uniq: "inj_on (\<lambda>a. ident (h' a)) (set (transactions self))"
    by (simp add: tr h' example_store_def example_heap_def)
  have lin: "fst (fst (linear_search example_clock self h' 2 0)) = Some 1"
    by (simp add: linear_search_def tr h' example_store_def example_heap_def)
  from strategies_agree[OF init uniq, of example_clock 2 0] lin
  have "fst (fst (dictionary_lookup example_clock self 2 0)) = Some 1"
    and "binary_search example_clock self h' 2 0 = Inr ((Some 1, 1), 2)"
    by (auto simp: example_clock_def float_sub_examples)
  with init uniq lin show ?thesis by blast
qed

lemma id_key_of_prepared:
  "a \<in> set as \<Longrightarrow> ident (assign_ids i as h a) = Some (id_key (assign_ids i as h) a)"
  using assign_ids_has_id[of a as i h] by (auto simp: id_key_def)

section \<open>The sorted sequence\<close>

text \<open>
  Claim C6. Every run of \<^verbatim>\<open>_prepare_data_structures\<close> succeeds, and afterwards every
  record of \<^verbatim>\<open>sorted_transactions\<close> has an identifier, the identifiers along the
  sequence are non-decreasing, and for each identifier the records carrying it stand in
  the order they have in \<^verbatim>\<open>transactions\<close> (the sort is stable).
\<close>

theorem sorted_sequence_sorted_stable:
  "\<exists>self' h'. prepare_data_structures self h = Inr (self', h') \<and>
     (\<forall>a\<in>set (sorted_transactions self'). ident (h' a) = Some (id_key h' a)) \<and>
     sorted (map (id_key h') (sorted_transactions self')) \<and>
     (\<forall>i. filter (\<lambda>a. ident (h' a) = Some i) (sorted_transactions self') =
          filter (\<lambda>a. ident (h' a) = Some i) (transactions self'))"
proof -
  from prepare_result[of self h] obtain self' h'
    where prep: "prepare_data_structures self h = Inr (self', h')" by blast
  note facts = prepare_Inr[OF prep]
  have ids: "\<forall>a\<in>set (transactions self). ident (h' a) = Some (id_key h' a)"
    unfolding facts(1) using id_key_of_prepared by blast
  have a: "\<forall>a\<in>set (sorted_transactions self'). ident (h' a) = Some (id_key h' a)"
    using ids by (simp add: facts(3))
  have b: "sorted (map (id_key h') (sorted_transactions self'))"
    by (simp add: facts(3))
  have c: "filter (\<lambda>a. ident (h' a) = Some i) (sorted_transactions self') =
          filter (\<lambda>a. ident (h' a) = Some i) (transactions self')" for i
  proof -
    have "filter (\<lambda>a. ident (h' a) = Some i) (sorted_transactions self') =
          filter (\<lambda>a. id_key h' a = i) (sorted_transactions self')"
      using a by (intro filter_cong) auto
    also have "\<dots> = filter (\<lambda>a. id_key h' a = i) (transactions self)"
      unfolding facts(3) by (rule sort_key_stable)
    also have "\<dots> = filter (\<lambda>a. ident (h' a) = Some i) (transactions self)"
      using ids by (intro filter_cong) auto
    finally show ?thesis by (simp add: facts(2))
  qed
  from prep a b c show ?thesis by blast
qed

theorem sorted_sequence_sorted_stable_witness:
  "\<exists>self' h'.
     prepare_data_structures
       \<lparr>transactions = [0, 1, 2], transactions_dict = Map.empty, sorted_transactions = []\<rparr>
       example_dup_heap = Inr (self', h') \<and>
     sorted_transactions self' = [1, 0, 2] \<and>
     map (id_key h') (sorted_transactions self') = [1, 2, 2] \<and>
     sorted (map (id_key h') (sorted_transactions self')) \<and>
     filter (\<lambda>a. ident (h' a) = Some 2) (sorted_transactions self') =
       filter (\<lambda>a. ident (h' a) = Some 2) [0, 1, 2]"
proof -
  let ?self = "\<lparr>transactions = [0, 1, 2], transactions_dict = Map.empty,
                 sorted_transactions = []\<rparr>"
  from sorted_sequence_sorted_stable[of ?self example_dup_heap] obtain self' h'
    where prep: "prepare_data_structures ?self example_dup_heap = Inr (self', h')"
      and srt: "sorted (map (id_key h') (sorted_transactions self'))"
      and stab: "\<forall>i. filter (\<lambda>a. ident (h' a) = Some i) (sorted_transactions self') =
          filter (\<lambda>a. ident (h' a) = Some i) (transactions self')"
    by blast
  have h': "h' = example_dup_heap"
    using prepare_Inr(1)[OF prep] by (simp add: example_dup_heap_def)
  have s: "sorted_transactions self' = [1, 0, 2]"
    using prepare_Inr(3)[OF prep] by (simp add: h' example_dup_heap_def id_key_def)
  have k: "map (id_key h') (sorted_transactions self') = [1, 2, 2]"
    by (simp add: s h' example_dup_heap_def id_key_def)
  have t: "transactions self' = [0, 1, 2]" using prepare_Inr(2)[OF prep] by simp
  from stab have flt: "filter (\<lambda>a. ident (h' a) = Some 2) (sorted_transactions self') =
       filter (\<lambda>a. ident (h' a) = Some 2) [0, 1, 2]" unfolding t by blast
  show ?thesis
  proof (intro exI conjI)
    show "prepare_data_structures ?self example_dup_heap = Inr (self', h')" by (rule prep)
    show "sorted_transactions self' = [1, 0, 2]" by (rule s)
    show "map (id_key h') (sorted_transactions self') = [1, 2, 2]" by (rule k)
    show "sorted (map (id_key h') (sorted_transactions self'))" by (rule srt)
    show "filter (\<lambda>a. ident (h' a) = Some 2) (sorted_transactions self') =
       filter (\<lambda>a. ident (h' a) = Some 2) [0, 1, 2]" by (rule flt)
  qed
qed

section \<open>Loading in the API handler: auxiliary facts\<close>


lemma load_loop_nth:
  "i < length ts \<Longrightarrow>
   fst (load_loop n ts d) ! i = (ts ! i)\<lparr>ident := Some (int (n + i) + 1)\<rparr>"
proof (induction ts arbitrary: n d i)
  case Nil
  then show ?case by simp
next
  case (Cons t ts)
  show ?case
  proof (cases i)
    case 0
    then show ?thesis by (simp add: Let_def case_prod_unfold)
  next
    case (Suc j)
    with Cons.prems have "j < length ts" by simp
    from Cons.IH[OF this]
    show ?thesis using Suc by (simp add: Let_def case_prod_unfold)
  qed
qed

lemma load_transactions_nth:
  "i < length ts \<Longrightarrow>
   api_transactions (load_transactions (Some ts)) ! i = (ts ! i)\<lparr>ident := Some (int i + 1)\<rparr>"
  using load_loop_nth[of i ts 0 Map.empty]
  by (simp add: load_transactions_def Let_def case_prod_unfold)

section \<open>Assignment of identifiers\<close>

text \<open>
  Claim C7, counterexample. \<^verbatim>\<open>SMSAPIHandler.load_transactions\<close> numbers every loaded
  record, so a record that comes with the identifier 7 leaves the load with identifier 1.
\<close>

theorem load_reassigns_counterexample:
  "api_transactions (load_transactions (Some [\<lparr>ident = Some 7, other_fields = []\<rparr>])) =
     [\<lparr>ident = Some 1, other_fields = []\<rparr>]"
  by (simp add: load_transactions_def Let_def)

text \<open>
  Claim C7, amended. \<^verbatim>\<open>_prepare_data_structures\<close> leaves a record that carries an
  identifier as it is, and gives a record without one its 1-based position in the list
  (the position of its first occurrence), changing nothing else of it.
  \<^verbatim>\<open>SMSAPIHandler.load_transactions\<close> sets the identifier of every record of the file
  to its 1-based position, whether or not the record carried one.
\<close>

theorem identifier_assignment:
  assumes "prepare_data_structures self h = Inr (self', h')"
  shows "(ident (h a) \<noteq> None \<longrightarrow> h' a = h a) \<and>
         (transactions self = pre @ b # post \<and> b \<notin> set pre \<and> ident (h b) = None \<longrightarrow>
            h' b = (h b)\<lparr>ident := Some (int (length pre) + 1)\<rparr>) \<and>
         (i < length ts \<longrightarrow>
            api_transactions (load_transactions (Some ts)) ! i =
              (ts ! i)\<lparr>ident := Some (int i + 1)\<rparr>)"
proof -
  have h': "h' = assign_ids 0 (transactions self) h" by (rule prepare_Inr(1)[OF assms])
  have "ident (h a) \<noteq> None \<longrightarrow> h' a = h a"
    unfolding h' using assign_ids_keep by blast
  moreover have "transactions self = pre @ b # post \<and> b \<notin> set pre \<and> ident (h b) = None \<longrightarrow>
            h' b = (h b)\<lparr>ident := Some (int (length pre) + 1)\<rparr>"
    unfolding h' using assign_ids_first[of b pre h 0 post] by auto
  moreover have "i < length ts \<longrightarrow>
            api_transactions (load_transactions (Some ts)) ! i =
              (ts ! i)\<lparr>ident := Some (int i + 1)\<rparr>"
    using load_transactions_nth by blast
  ultimately show ?thesis by blast
qed

theorem identifier_assignment_witness:
  "\<exists>self' h'.
     prepare_data_structures
       \<lparr>transactions = example_store, transactions_dict = Map.empty, sorted_transactions = []\<rparr>
       example_heap = Inr (self', h') \<and>
     ident (example_heap 0) = Some 3 \<and> h' 0 = example_heap 0 \<and>
     ident (example_heap 1) = None \<and> ident (h' 1) = Some 2 \<and>
     ident (api_transactions
              (load_transactions (Some [\<lparr>ident = Some 7, other_fields = []\<rparr>])) ! 0) = Some 1"
proof -
  let ?self = "\<lparr>transactions = example_store, transactions_dict = Map.empty,
                 sorted_transactions = []\<rparr>"
  let ?ts = "[\<lparr>ident = Some 7, other_fields = []\<rparr>]"
  from prepare_result[of ?self example_heap] obtain self' h'
    where prep: "prepare_data_structures ?self example_heap = Inr (self', h')" by blast
  note inst = identifier_assignment[OF prep, of 0 "[0]" 1 "[2]" 0 ?ts]
  have a: "ident (example_heap 0) = Some 3" by (simp add: example_heap_def)
  have b: "ident (example_heap 1) = None" by (simp add: example_heap_def)
  have c: "h' 0 = example_heap 0" using inst a by simp
  have d: "ident (h' 1) = Some 2" using inst b by (simp add: example_store_def)
  have e: "ident (api_transactions (load_transactions (Some ?ts)) ! 0) = Some 1"
    using inst by simp
  show ?thesis
  proof (intro exI conjI)
    show "prepare_data_structures ?self example_heap = Inr (self', h')" by (rule prep)
  qed (rule a b c d e)+
qed

lemma example_engine_prepared:
  "\<exists>d. prepare_data_structures example_engine example_heap =
     Inr (example_engine\<lparr>transactions_dict := d, sorted_transactions := [2, 1, 0]\<rparr>,
          example_heap(1 := \<lparr>ident = Some 2, other_fields = []\<rparr>))"
proof -
  have tr: "transactions example_engine = example_store" by (simp add: example_engine_def)
  have "sort_key (id_key (example_heap(1 := \<lparr>ident = Some 2, other_fields = []\<rparr>)))
          example_store = [2, 1, 0]"
    by (simp add: example_store_def example_heap_def id_key_def)
  with prepare_result[of example_engine example_heap] show ?thesis
    by (auto simp: tr example_prepared)
qed

section \<open>Side effects of index construction\<close>

text \<open>
  Claim C8, counterexample. The middle record of the example list has no identifier
  before index construction and has the identifier 2 after it: the record held by the
  store has been written.
\<close>

theorem index_builder_writes_counterexample:
  "ident (example_heap 1) = None \<and>
   ident (snd (projr (prepare_data_structures example_engine example_heap)) 1) = Some 2"
proof -
  from example_engine_prepared obtain d where
    "prepare_data_structures example_engine example_heap =
     Inr (example_engine\<lparr>transactions_dict := d, sorted_transactions := [2, 1, 0]\<rparr>,
          example_heap(1 := \<lparr>ident = Some 2, other_fields = []\<rparr>))" by blast
  then show ?thesis by (simp add: example_heap_def)
qed

text \<open>
  Claim C8, amended. Index construction leaves the list \<^verbatim>\<open>transactions\<close> as it is (the
  same records in the same order), leaves every record that carries an identifier and
  every record outside the list unchanged, and changes no key other than \<^verbatim>\<open>'id'\<close> of any
  record; a record of the list without an identifier is given one.
\<close>

theorem index_builder_frame:
  assumes "prepare_data_structures self h = Inr (self', h')"
  shows "transactions self' = transactions self \<and>
         (ident (h a) \<noteq> None \<longrightarrow> h' a = h a) \<and>
         (a \<notin> set (transactions self) \<longrightarrow> h' a = h a) \<and>
         other_fields (h' a) = other_fields (h a) \<and>
         (a \<in> set (transactions self) \<longrightarrow> ident (h' a) \<noteq> None)"
proof -
  have h': "h' = assign_ids 0 (transactions self) h" by (rule prepare_Inr(1)[OF assms])
  have "transactions self' = transactions self" by (rule prepare_Inr(2)[OF assms])
  moreover have "ident (h a) \<noteq> None \<longrightarrow> h' a = h a"
    unfolding h' using assign_ids_keep by blast
  moreover have "a \<notin> set (transactions self) \<longrightarrow> h' a = h a"
    unfolding h' using assign_ids_notin by blast
  moreover have "other_fields (h' a) = other_fields (h a)"
    unfolding h' by (rule assign_ids_other_fields)
  moreover have "a \<in> set (transactions self) \<longrightarrow> ident (h' a) \<noteq> None"
    unfolding h' using assign_ids_has_id by blast
  ultimately show ?thesis by blast
qed

theorem index_builder_frame_witness:
  "\<exists>self' h'.
     prepare_data_structures example_engine example_heap = Inr (self', h') \<and>
     transactions self' = [0, 1, 2] \<and>
     ident (example_heap 0) = Some 3 \<and> h' 0 = example_heap 0 \<and>
     h' 5 = example_heap 5 \<and>
     other_fields (h' 0) = [(''body'', JStr ''a'')]"
proof -
  from example_engine_prepared obtain self' h'
    where prep: "prepare_data_structures example_engine example_heap = Inr (self', h')"
    by blast
  note at0 = index_builder_frame[OF prep, of 0]
  note at5 = index_builder_frame[OF prep, of 5]
  have tr: "transactions example_engine = [0, 1, 2]"
    by (simp add: example_engine_def example_store_def)
  have a: "transactions self' = [0, 1, 2]" using at0 tr by simp
  have b: "ident (example_heap 0) = Some 3" by (simp add: example_heap_def)
  have c: "h' 0 = example_heap 0" using at0 b by simp
  have d: "h' 5 = example_heap 5" using at5 tr by simp
  have e: "other_fields (h' 0) = [(''body'', JStr ''a'')]"
    using at0 by (simp add: example_heap_def)
  show ?thesis
  proof (intro exI conjI)
    show "prepare_data_structures example_engine example_heap = Inr (self', h')"
      by (rule prep)
  qed (rule a b c d e)+
qed

section \<open>The empty store\<close>

text \<open>
  Claim C10. The engine built from the empty list has three empty structures, and for
  every queried identifier \<^verbatim>\<open>linear_search\<close>, \<^verbatim>\<open>dictionary_lookup\<close> and
  \<^verbatim>\<open>binary_search\<close> return absent and raise nothing; the binary search starts with
  \<^verbatim>\<open>right = -1\<close>, so the loop guard fails at once and the list is never indexed.
\<close>

theorem empty_store_absent:
  "SearchAlgorithms_init [] h = Inr (empty_engine, h) \<and>
   linear_search clk empty_engine h I k = ((None, float_sub (clk (k + 1)) (clk k)), k + 2) \<and>
   dictionary_lookup clk empty_engine I k = ((None, float_sub (clk (k + 1)) (clk k)), k + 2) \<and>
   binary_search clk empty_engine h I k = Inr ((None, float_sub (clk (k + 1)) (clk k)), k + 2) \<and>
   int (length (sorted_transactions empty_engine)) - 1 = - 1 \<and>
   bisect h (sorted_transactions empty_engine) I 0 (- 1) = Inr None"
proof -
  have "SearchAlgorithms_init [] h = Inr (empty_engine, h)"
    by (simp add: SearchAlgorithms_init_def prepare_data_structures_def py_sorted_def
        empty_engine_def)
  moreover have "linear_search clk empty_engine h I k = ((None, float_sub (clk (k + 1)) (clk k)), k + 2)"
    by (simp add: linear_search_def empty_engine_def)
  moreover have
    "dictionary_lookup clk empty_engine I k = ((None, float_sub (clk (k + 1)) (clk k)), k + 2)"
    by (simp add: dictionary_lookup_def empty_engine_def)
  moreover have loop: "bisect h (sorted_transactions empty_engine) I 0 (- 1) = Inr None"
    by (simp add: bisect.simps[of h "[]" I 0 "- 1"] empty_engine_def)
  moreover have right: "int (length (sorted_transactions empty_engine)) - 1 = - 1"
    by (simp add: empty_engine_def)
  moreover have
    "binary_search clk empty_engine h I k = Inr ((None, float_sub (clk (k + 1)) (clk k)), k + 2)"
    using loop by (simp add: binary_search_def right)
  ultimately show ?thesis by blast
qed

theorem empty_store_absent_witness:
  "SearchAlgorithms_init [] example_heap = Inr (empty_engine, example_heap) \<and>
   linear_search example_clock empty_engine example_heap 1 0 = ((None, 1), 2) \<and>
   dictionary_lookup example_clock empty_engine 1 0 = ((None, 1), 2) \<and>
   binary_search example_clock empty_engine example_heap 1 0 = Inr ((None, 1), 2)"
  using empty_store_absent[of example_heap example_clock 1 0]
  by (simp add: example_clock_def float_sub_examples)

section \<open>Comparison reports: auxiliary facts\<close>

lemma compare_analysis:
  assumes "compare_algorithms clk self h tid k = Inr (rep, k')"
  shows "fastest_algorithm (performance_analysis rep) =
          (if elapsed rep DictionaryLookup =
                min (min (elapsed rep LinearSearch) (elapsed rep DictionaryLookup))
                    (elapsed rep BinarySearch) then DictionaryLookup
           else if elapsed rep BinarySearch =
                min (min (elapsed rep LinearSearch) (elapsed rep DictionaryLookup))
                    (elapsed rep BinarySearch) then BinarySearch
           else LinearSearch)"
    and "slowest_algorithm (performance_analysis rep) =
          (if elapsed rep LinearSearch =
                max (max (elapsed rep LinearSearch) (elapsed rep DictionaryLookup))
                    (elapsed rep BinarySearch) then LinearSearch
           else if elapsed rep BinarySearch =
                max (max (elapsed rep LinearSearch) (elapsed rep DictionaryLookup))
                    (elapsed rep BinarySearch) then BinarySearch
           else DictionaryLookup)"
    and "dictionary_vs_linear (speed_improvement (performance_analysis rep)) =
           speed_ratio (elapsed rep LinearSearch) (elapsed rep DictionaryLookup)"
    and "binary_vs_linear (speed_improvement (performance_analysis rep)) =
           speed_ratio (elapsed rep LinearSearch) (elapsed rep BinarySearch)"
    and "dictionary_vs_binary (speed_improvement (performance_analysis rep)) =
           speed_ratio (elapsed rep BinarySearch) (elapsed rep DictionaryLookup)"
proof -
  obtain lr lt k1 where l: "linear_search clk self h tid k = ((lr, lt), k1)"
    by (metis prod.exhaust)
  obtain dr dt k2 where d: "dictionary_lookup clk self tid k1 = ((dr, dt), k2)"
    by (metis prod.exhaust)
  from assms l d obtain br bt where
    b: "binary_search clk self h tid k2 = Inr ((br, bt), k')"
    by (auto simp: compare_algorithms_def Let_def split: sum.splits)
  have el: "elapsed rep LinearSearch = lt" "elapsed rep DictionaryLookup = dt"
    "elapsed rep BinarySearch = bt"
    using assms l d b by (auto simp: compare_algorithms_def Let_def elapsed_def)
  show "fastest_algorithm (performance_analysis rep) =
          (if elapsed rep DictionaryLookup =
                min (min (elapsed rep LinearSearch) (elapsed rep DictionaryLookup))
                    (elapsed rep BinarySearch) then DictionaryLookup
           else if elapsed rep BinarySearch =
                min (min (elapsed rep LinearSearch) (elapsed rep DictionaryLookup))
                    (elapsed rep BinarySearch) then BinarySearch
           else LinearSearch)"
    unfolding el using assms l d b by (auto simp: compare_algorithms_def Let_def)
  show "slowest_algorithm (performance_analysis rep) =
          (if elapsed rep LinearSearch =
                max (max (elapsed rep LinearSearch) (elapsed rep DictionaryLookup))
                    (elapsed rep BinarySearch) then LinearSearch
           else if elapsed rep BinarySearch =
                max (max (elapsed rep LinearSearch) (elapsed rep DictionaryLookup))
                    (elapsed rep BinarySearch) then BinarySearch
           else DictionaryLookup)"
    unfolding el using assms l d b by (auto simp: compare_algorithms_def Let_def)
  show "dictionary_vs_linear (speed_improvement (performance_analysis rep)) =
           speed_ratio (elapsed rep LinearSearch) (elapsed rep DictionaryLookup)"
    unfolding el using assms l d b by (auto simp: compare_algorithms_def Let_def)
  show "binary_vs_linear (speed_improvement (performance_analysis rep)) =
           speed_ratio (elapsed rep LinearSearch) (elapsed rep BinarySearch)"
    unfolding el using assms l d b by (auto simp: compare_algorithms_def Let_def)
  show "dictionary_vs_binary (speed_improvement (performance_analysis rep)) =
           speed_ratio (elapsed rep BinarySearch) (elapsed rep DictionaryLookup)"
    unfolding el using assms l d b by (auto simp: compare_algorithms_def Let_def)
qed

lemma compare_found:
  assumes "compare_algorithms clk self h tid k = Inr (rep, k')"
  shows "found (algorithms rep a) = (result (algorithms rep a) \<noteq> None)"
    and "result (algorithms rep LinearSearch) = fst (fst (linear_search clk self h tid k))"
    and "result (algorithms rep DictionaryLookup) =
           fst (fst (dictionary_lookup clk self tid (k + 2)))"
    and "\<exists>t. binary_search clk self h tid (k + 4) =
           Inr ((result (algorithms rep BinarySearch), t), k')"
proof -
  obtain lr lt k1 where l: "linear_search clk self h tid k = ((lr, lt), k1)"
    by (metis prod.exhaust)
  obtain dr dt k2 where d: "dictionary_lookup clk self tid k1 = ((dr, dt), k2)"
    by (metis prod.exhaust)
  from assms l d obtain br bt where
    b: "binary_search clk self h tid k2 = Inr ((br, bt), k')"
    by (auto simp: compare_algorithms_def Let_def split: sum.splits)
  have k1: "k1 = k + 2" using l by (auto simp: linear_search_def Let_def)
  have k2: "k2 = k + 4" using d k1 by (auto simp: dictionary_lookup_def Let_def)
  show "found (algorithms rep a) = (result (algorithms rep a) \<noteq> None)"
    using assms l d b by (cases a) (auto simp: compare_algorithms_def Let_def)
  show "result (algorithms rep LinearSearch) = fst (fst (linear_search clk self h tid k))"
    using assms l d b by (auto simp: compare_algorithms_def Let_def)
  show "result (algorithms rep DictionaryLookup) =
           fst (fst (dictionary_lookup clk self tid (k + 2)))"
    using assms l d b unfolding k1[symmetric]
    by (auto simp: compare_algorithms_def Let_def)
  show "\<exists>t. binary_search clk self h tid (k + 4) =
           Inr ((result (algorithms rep BinarySearch), t), k')"
    using assms l d b unfolding k2[symmetric]
    by (auto simp: compare_algorithms_def Let_def)
qed

lemma compare_elapsed:
  assumes "compare_algorithms clk self h tid k = Inr (rep, k')"
  shows "elapsed rep LinearSearch = float_sub (clk (k + 1)) (clk k)"
    and "elapsed rep DictionaryLookup = float_sub (clk (k + 3)) (clk (k + 2))"
    and "elapsed rep BinarySearch = float_sub (clk (k + 5)) (clk (k + 4))"
    and "k' = k + 6"
proof -
  obtain lr lt k1 where l: "linear_search clk self h tid k = ((lr, lt), k1)"
    by (metis prod.exhaust)
  obtain dr dt k2 where d: "dictionary_lookup clk self tid k1 = ((dr, dt), k2)"
    by (metis prod.exhaust)
  from assms l d obtain br bt where
    b: "binary_search clk self h tid k2 = Inr ((br, bt), k')"
    by (auto simp: compare_algorithms_def Let_def split: sum.splits)
  have lt: "lt = float_sub (clk (k + 1)) (clk k)" and k1: "k1 = k + 2"
    using l by (auto simp: linear_search_def Let_def)
  have dt0: "dt = float_sub (clk (k1 + 1)) (clk k1)" and k2': "k2 = k1 + 2"
    using d by (auto simp: dictionary_lookup_def Let_def)
  from b have bt0: "bt = float_sub (clk (k2 + 1)) (clk k2)" and k'': "k' = k2 + 2"
    by (auto simp: binary_search_def Let_def split: sum.splits)
  have a1: "k1 + 1 = k + 3" and a2: "k2 = k + 4" and a3: "k2 + 1 = k + 5"
    and a4: "k2 + 2 = k + 6"
    using k1 k2' by simp_all
  have dt: "dt = float_sub (clk (k + 3)) (clk (k + 2))" using dt0 unfolding a1 unfolding k1 .
  have bt: "bt = float_sub (clk (k + 5)) (clk (k + 4))" using bt0 unfolding a3 unfolding a2 .
  have k': "k' = k + 6" using k'' unfolding a4 .
  have el: "elapsed rep LinearSearch = lt" "elapsed rep DictionaryLookup = dt"
    "elapsed rep BinarySearch = bt"
    using assms l d b by (auto simp: compare_algorithms_def Let_def elapsed_def)
  show "elapsed rep LinearSearch = float_sub (clk (k + 1)) (clk k)" using el lt by simp
  show "elapsed rep DictionaryLookup = float_sub (clk (k + 3)) (clk (k + 2))" using el dt by simp
  show "elapsed rep BinarySearch = float_sub (clk (k + 5)) (clk (k + 4))" using el bt by simp
  show "k' = k + 6" by (rule k')
qed

lemma binary_search_empty:
  "binary_search clk empty_engine h I k = Inr ((None, float_sub (clk (k + 1)) (clk k)), k + 2)"
  by (simp add: binary_search_def empty_engine_def bisect.simps[of h "[]" I 0 "- 1"])

lemma compare_empty_total:
  "\<exists>rep. compare_algorithms clk empty_engine h I k = Inr (rep, k + 6)"
  by (simp add: compare_algorithms_def linear_search_def dictionary_lookup_def
      binary_search_empty Let_def)

section \<open>Fastest and slowest strategy\<close>

text \<open>
  Claim C4. In every Comparison Report of \<^verbatim>\<open>compare_algorithms\<close>, the strategy named
  fastest has the minimal elapsed time and, among the strategies that share it, comes
  first in the order dictionary lookup, binary search, linear search; the strategy named
  slowest has the maximal elapsed time and, among the strategies that share it, comes
  first in the order linear search, binary search, dictionary lookup.
\<close>

theorem fastest_slowest_precedence:
  assumes "compare_algorithms clk self h tid k = Inr (rep, k')"
  shows "spec_fastest rep = Some (fastest_algorithm (performance_analysis rep)) \<and>
         spec_slowest rep = Some (slowest_algorithm (performance_analysis rep))"
proof -
  define l where "l = elapsed rep LinearSearch"
  define d where "d = elapsed rep DictionaryLookup"
  define b where "b = elapsed rep BinarySearch"
  have f: "fastest_algorithm (performance_analysis rep) =
          (if d = min (min l d) b then DictionaryLookup
           else if b = min (min l d) b then BinarySearch else LinearSearch)"
    unfolding l_def d_def b_def by (rule compare_analysis(1)[OF assms])
  have s: "slowest_algorithm (performance_analysis rep) =
          (if l = max (max l d) b then LinearSearch
           else if b = max (max l d) b then BinarySearch else DictionaryLookup)"
    unfolding l_def d_def b_def by (rule compare_analysis(2)[OF assms])
  have "spec_fastest rep = Some (fastest_algorithm (performance_analysis rep))"
    unfolding f spec_fastest_def
    by (simp add: l_def[symmetric] d_def[symmetric] b_def[symmetric] min_def)
  moreover have "spec_slowest rep = Some (slowest_algorithm (performance_analysis rep))"
    unfolding s spec_slowest_def
    by (simp add: l_def[symmetric] d_def[symmetric] b_def[symmetric] max_def)
  ultimately show ?thesis by simp
qed

theorem fastest_slowest_precedence_witness:
  "\<exists>rep k'. compare_algorithms example_frozen_clock empty_engine example_heap 1 0 =
       Inr (rep, k') \<and>
     elapsed rep LinearSearch = 0 \<and> elapsed rep DictionaryLookup = 0 \<and>
     elapsed rep BinarySearch = 0 \<and>
     fastest_algorithm (performance_analysis rep) = DictionaryLookup \<and>
     slowest_algorithm (performance_analysis rep) = LinearSearch"
proof -
  from compare_empty_total obtain rep where
    c: "compare_algorithms example_frozen_clock empty_engine example_heap 1 0 = Inr (rep, 0 + 6)"
    by blast
  have el: "elapsed rep LinearSearch = 0" "elapsed rep DictionaryLookup = 0"
    "elapsed rep BinarySearch = 0"
    using compare_elapsed(1-3)[OF c]
    by (simp_all add: example_frozen_clock_def float_sub_examples)
  from fastest_slowest_precedence[OF c]
  have "fastest_algorithm (performance_analysis rep) = DictionaryLookup"
    and "slowest_algorithm (performance_analysis rep) = LinearSearch"
    by (simp_all add: spec_fastest_def spec_slowest_def el)
  with c el show ?thesis by blast
qed

section \<open>Benchmark aggregates\<close>

lemma aggregate_success_rate:
  "success_rate (aggregate cmp stats a) =
     success_rate (stats a) + (if found (algorithms cmp a) then 1 else 0)"
  by (cases a) (simp_all add: aggregate_def Let_def)

lemma hits_append: "hits a (xs @ ys) = hits a xs + hits a ys"
  by (simp add: hits_def)

lemma hits_single: "hits a [cmp] = (if found (algorithms cmp a) then 1 else 0)"
  by (simp add: hits_def)

lemma bench_loop_Inr:
  "bench_loop clk self h ids br k = Inr (br', k') \<Longrightarrow>
   \<exists>new. detailed_results br' = detailed_results br @ new \<and> length new = length ids \<and>
     (\<forall>a. success_rate (bench_algorithms br' a) =
           success_rate (bench_algorithms br a) + of_nat (hits a new))"
proof (induction ids arbitrary: br k)
  case Nil
  then show ?case by (simp add: hits_def)
next
  case (Cons test_id rest)
  from Cons.prems obtain cmp k1 where
    c: "compare_algorithms clk self h test_id k = Inr (cmp, k1)"
    and r: "bench_loop clk self h rest
            (br\<lparr>detailed_results := detailed_results br @ [cmp],
                bench_algorithms := aggregate cmp (bench_algorithms br)\<rparr>) k1 = Inr (br', k')"
    by (auto split: sum.splits)
  from Cons.IH[OF r] obtain new where
    d: "detailed_results br' = (detailed_results br @ [cmp]) @ new"
    and n: "length new = length rest"
    and s: "\<forall>a. success_rate (bench_algorithms br' a) =
           success_rate (aggregate cmp (bench_algorithms br) a) + of_nat (hits a new)"
    by auto
  have "\<forall>a. success_rate (bench_algorithms br' a) =
           success_rate (bench_algorithms br a) + of_nat (hits a (cmp # new))"
  proof
    fix a
    have "hits a (cmp # new) = hits a [cmp] + hits a new"
      using hits_append[of a "[cmp]" new] by simp
    then show "success_rate (bench_algorithms br' a) =
           success_rate (bench_algorithms br a) + of_nat (hits a (cmp # new))"
      using s by (simp add: aggregate_success_rate hits_single)
  qed
  moreover have "detailed_results br' = detailed_results br @ (cmp # new)" using d by simp
  moreover have "length (cmp # new) = length (test_id # rest)" using n by simp
  ultimately show ?case by blast
qed

lemma calculate_averages_Inr:
  "n \<noteq> 0 \<Longrightarrow> distinct as \<Longrightarrow>
   \<exists>st. calculate_averages as n stats = Inr st \<and>
     (\<forall>a. st a = (if a \<in> set as
                  then (stats a)\<lparr>avg_time := float_div (total_time (stats a)) (of_nat n),
                         success_rate :=
                           float_mul (float_div (success_rate (stats a)) (of_nat n)) 100\<rparr>
                  else stats a))"
proof (induction as arbitrary: stats)
  case Nil
  then show ?case by simp
next
  case (Cons b as)
  let ?stats = "stats(b := (stats b)\<lparr>avg_time := float_div (total_time (stats b)) (of_nat n),
                         success_rate :=
                           float_mul (float_div (success_rate (stats b)) (of_nat n)) 100\<rparr>)"
  from Cons.prems have "distinct as" and nb: "b \<notin> set as" by simp_all
  from Cons.IH[OF Cons.prems(1) this(1), of ?stats] obtain st where
    st: "calculate_averages as n ?stats = Inr st"
    and eq: "\<forall>a. st a = (if a \<in> set as
                  then (?stats a)\<lparr>avg_time := float_div (total_time (?stats a)) (of_nat n),
                         success_rate :=
                           float_mul (float_div (success_rate (?stats a)) (of_nat n)) 100\<rparr>
                  else ?stats a)"
    by blast
  have "calculate_averages (b # as) n stats = Inr st"
    using st Cons.prems(1) by (simp add: py_truediv_def)
  moreover have "\<forall>a. st a = (if a \<in> set (b # as)
                  then (stats a)\<lparr>avg_time := float_div (total_time (stats a)) (of_nat n),
                         success_rate :=
                           float_mul (float_div (success_rate (stats a)) (of_nat n)) 100\<rparr>
                  else stats a)"
    using eq nb by auto
  ultimately show ?case by blast
qed

lemma calculate_averages_zero:
  "calculate_averages (a # as) 0 stats = Inl ZeroDivisionError"
  by (simp add: py_truediv_def)

lemma benchmark_Inr:
  assumes "benchmark_algorithms clk self h test_ids k = Inr (br, k')"
  shows "test_ids \<noteq> []"
    and "length (detailed_results br) = length test_ids"
    and "success_rate (bench_algorithms br a) =
           float_mul (float_div (of_nat (hits a (detailed_results br)))
                        (of_nat (length test_ids))) 100"
proof -
  let ?br0 = "\<lparr>test_cases = length test_ids,
             bench_dataset_size = length (transactions self),
             bench_algorithms = (\<lambda>name. \<lparr>total_time = 0, avg_time = 0, success_rate = 0\<rparr>),
             detailed_results = []\<rparr>"
  let ?all = "[LinearSearch, DictionaryLookup, BinarySearch]"
  from assms obtain br1 st where
    loop: "bench_loop clk self h test_ids ?br0 k = Inr (br1, k')"
    and avg: "calculate_averages ?all (length test_ids) (bench_algorithms br1) = Inr st"
    and br: "br = br1\<lparr>bench_algorithms := st\<rparr>"
    by (auto simp: benchmark_algorithms_def Let_def split: sum.splits)
  show ne: "test_ids \<noteq> []"
  proof
    assume "test_ids = []"
    then have "calculate_averages ?all (length test_ids) (bench_algorithms br1) =
        Inl ZeroDivisionError" by (simp add: py_truediv_def)
    with avg show False by simp
  qed
  from bench_loop_Inr[OF loop] have
    len: "length (detailed_results br1) = length test_ids"
    and rate: "success_rate (bench_algorithms br1 a) = of_nat (hits a (detailed_results br1))"
    by auto
  show "length (detailed_results br) = length test_ids" using len br by simp
  from ne have n0: "length test_ids \<noteq> 0" by simp
  have "a \<in> set ?all" by (cases a) simp_all
  with calculate_averages_Inr[OF n0, of ?all "bench_algorithms br1"] avg
  have "st a = (bench_algorithms br1 a)\<lparr>avg_time :=
                   float_div (total_time (bench_algorithms br1 a)) (of_nat (length test_ids)),
                 success_rate :=
                   float_mul (float_div (success_rate (bench_algorithms br1 a))
                                (of_nat (length test_ids))) 100\<rparr>"
    by auto
  then show "success_rate (bench_algorithms br a) =
           float_mul (float_div (of_nat (hits a (detailed_results br)))
                        (of_nat (length test_ids))) 100"
    using rate br by simp
qed

lemma benchmark_empty:
  "benchmark_algorithms clk self h [] k = Inl ZeroDivisionError"
  by (simp add: benchmark_algorithms_def py_truediv_def)

lemma example_built:
  "SearchAlgorithms_init example_store example_heap =
     Inr (example_built_engine, example_built_heap)"
  by (simp add: SearchAlgorithms_init_def prepare_data_structures_def py_sorted_def
      example_store_def example_heap_def example_built_engine_def example_built_heap_def
      id_key_def Let_def)

lemma built_engine_bisect:
  assumes "SearchAlgorithms_init store h = Inr (self, h')"
  shows "\<exists>r. bisect h' (sorted_transactions self) I 0
               (int (length (sorted_transactions self)) - 1) = Inr r"
proof -
  let ?self0 = "\<lparr>transactions = store, transactions_dict = Map.empty,
                  sorted_transactions = []\<rparr>"
  from assms have prep: "prepare_data_structures ?self0 h = Inr (self, h')"
    by (simp add: SearchAlgorithms_init_def)
  note facts = prepare_Inr[OF prep]
  have "\<forall>a\<in>set store. ident (h' a) \<noteq> None"
    using facts(1) assign_ids_has_id by auto
  then have "\<forall>a\<in>set (sorted_transactions self). ident (h' a) \<noteq> None"
    using facts(3) by simp
  moreover have "sorted (map (id_key h') (sorted_transactions self))"
    using facts(3) by simp
  ultimately show ?thesis
    using bisect_whole[of h' "sorted_transactions self" I] by blast
qed

lemma compare_total:
  assumes "bisect h (sorted_transactions self) tid 0
               (int (length (sorted_transactions self)) - 1) = Inr r"
  shows "\<exists>rep k'. compare_algorithms clk self h tid k = Inr (rep, k')"
  using assms
  by (simp add: compare_algorithms_def linear_search_def dictionary_lookup_def
      binary_search_def Let_def)

lemma bench_loop_total:
  assumes "\<And>tid. \<exists>r. bisect h (sorted_transactions self) tid 0
               (int (length (sorted_transactions self)) - 1) = Inr r"
  shows "\<exists>br' k'. bench_loop clk self h ids br k = Inr (br', k')"
proof (induction ids arbitrary: br k)
  case Nil
  show ?case by simp
next
  case (Cons test_id rest)
  from assms[of test_id] obtain r where
    "bisect h (sorted_transactions self) test_id 0
               (int (length (sorted_transactions self)) - 1) = Inr r" by blast
  from compare_total[OF this] obtain rep k1 where
    c: "compare_algorithms clk self h test_id k = Inr (rep, k1)" by blast
  from Cons.IH[of "br\<lparr>detailed_results := detailed_results br @ [rep],
                bench_algorithms := aggregate rep (bench_algorithms br)\<rparr>" k1]
  show ?case using c by simp
qed

lemma benchmark_total:
  assumes "\<And>tid. \<exists>r. bisect h (sorted_transactions self) tid 0
               (int (length (sorted_transactions self)) - 1) = Inr r"
    and "test_ids \<noteq> []"
  shows "\<exists>br k'. benchmark_algorithms clk self h test_ids k = Inr (br, k')"
proof -
  let ?br0 = "\<lparr>test_cases = length test_ids,
             bench_dataset_size = length (transactions self),
             bench_algorithms = (\<lambda>name. \<lparr>total_time = 0, avg_time = 0, success_rate = 0\<rparr>),
             detailed_results = []\<rparr>"
  from bench_loop_total[OF assms(1), of clk test_ids ?br0 k] obtain br1 k' where
    loop: "bench_loop clk self h test_ids ?br0 k = Inr (br1, k')" by blast
  from assms(2) have "length test_ids \<noteq> 0" by simp
  from calculate_averages_Inr[OF this, of "[LinearSearch, DictionaryLookup, BinarySearch]"
      "bench_algorithms br1"]
  obtain st where "calculate_averages [LinearSearch, DictionaryLookup, BinarySearch]
      (length test_ids) (bench_algorithms br1) = Inr st" by auto
  with loop show ?thesis by (simp add: benchmark_algorithms_def Let_def)
qed

section \<open>The empty batch\<close>

text \<open>
  Claim C2, at the failing input. With an empty batch the loop over the identifiers
  runs no strategy (it reads no clock and adds no report), and the first division of the
  averaging loop, by \<^verbatim>\<open>len(test_ids) = 0\<close>, raises ZeroDivisionError: the batch is not
  rejected up front and the division by zero is attempted.
\<close>

theorem benchmark_empty_batch_divides_by_zero:
  "benchmark_algorithms clk self h [] k = Inl ZeroDivisionError \<and>
   bench_loop clk self h [] br k = Inr (br, k) \<and>
   py_truediv (total_time (bench_algorithms br LinearSearch)) (length ([] :: int list)) =
     Inl ZeroDivisionError"
  by (simp add: benchmark_empty py_truediv_def)

section \<open>Speed entries\<close>

lemma speed_ratio_examples:
  "speed_ratio 1 2 = ''0.50x faster''"
  "speed_ratio 1 3 = ''0.33x faster''"
  "speed_ratio 3 2 = ''1.50x faster''"
  "speed_ratio 2 1 = ''2.00x faster''"
proof -
  have d: "float_div 1 2 = 1 / 2" "float_div 3 2 = 3 / 2" "float_div 2 1 = 2"
    "float_div 1 3 = 6004799503160661 / 18014398509481984"
    by code_simp+
  have f: "format_2f (1 / 2) = ''0.50''" "format_2f (3 / 2) = ''1.50''"
    "format_2f 2 = ''2.00''"
    "format_2f (6004799503160661 / 18014398509481984) = ''0.33''"
    by code_simp+
  show "speed_ratio 1 2 = ''0.50x faster''" by (simp add: speed_ratio_def d f)
  show "speed_ratio 1 3 = ''0.33x faster''" by (simp add: speed_ratio_def d f)
  show "speed_ratio 3 2 = ''1.50x faster''" by (simp add: speed_ratio_def d f)
  show "speed_ratio 2 1 = ''2.00x faster''" by (simp add: speed_ratio_def d f)
qed

lemma example_report_times:
  "elapsed example_report LinearSearch = 1"
  "elapsed example_report DictionaryLookup = 2"
  "elapsed example_report BinarySearch = 3"
  "dictionary_vs_linear (speed_improvement (performance_analysis example_report)) =
     speed_ratio (elapsed example_report LinearSearch) (elapsed example_report DictionaryLookup)"
proof -
  from compare_empty_total obtain rep where
    c: "compare_algorithms example_clock empty_engine example_heap 1 0 = Inr (rep, 0 + 6)"
    by blast
  then have r: "example_report = rep" by (simp add: example_report_def)
  show "elapsed example_report LinearSearch = 1"
    unfolding r using compare_elapsed(1)[OF c]
    by (simp add: example_clock_def float_sub_examples)
  show "elapsed example_report DictionaryLookup = 2"
    unfolding r using compare_elapsed(2)[OF c]
    by (simp add: example_clock_def float_sub_examples)
  show "elapsed example_report BinarySearch = 3"
    unfolding r using compare_elapsed(3)[OF c]
    by (simp add: example_clock_def float_sub_examples)
  show "dictionary_vs_linear (speed_improvement (performance_analysis example_report)) =
     speed_ratio (elapsed example_report LinearSearch) (elapsed example_report DictionaryLookup)"
    unfolding r by (rule compare_analysis(3)[OF c])
qed

text \<open>
  Claim C5, counterexample. In the report of the example the linear search took 1 and
  the dictionary lookup 2, so the slower time over the faster one is 2 and would be
  written \<^verbatim>\<open>2.00x faster\<close>; the entry \<^verbatim>\<open>dictionary_vs_linear\<close> is \<^verbatim>\<open>0.50x faster\<close>, the linear
  time over the dictionary time.
\<close>

theorem speed_ratio_counterexample:
  "elapsed example_report LinearSearch = 1 \<and>
   elapsed example_report DictionaryLookup = 2 \<and>
   dictionary_vs_linear (speed_improvement (performance_analysis example_report)) =
     ''0.50x faster'' \<and>
   format_2f (float_div (elapsed example_report DictionaryLookup)
                (elapsed example_report LinearSearch)) @ ''x faster'' = ''2.00x faster''"
proof -
  have a: "dictionary_vs_linear (speed_improvement (performance_analysis example_report)) =
     ''0.50x faster''"
    by (simp add: example_report_times speed_ratio_examples)
  have b: "format_2f (float_div 2 1) @ ''x faster'' = ''2.00x faster''"
    using speed_ratio_examples(4) by (simp add: speed_ratio_def)
  show ?thesis using a b by (simp add: example_report_times(1-3))
qed

text \<open>
  Claim C5, amended. A Comparison Report has three speed entries, each with a numerator
  and a denominator fixed by the names of the strategies: linear over dictionary, linear
  over binary, binary over dictionary. When its denominator is positive an entry is that
  quotient, computed as a float and written with two decimals and the suffix
  \<^verbatim>\<open>x faster\<close>; it is then the slower time over the faster one when the strategy of the
  denominator is not the slower of the two. When its denominator is zero (or negative)
  the entry is \<^verbatim>\<open>N/A\<close> and no division is evaluated.
\<close>

theorem speed_ratio_operands:
  assumes "compare_algorithms clk self h tid k = Inr (rep, k')"
  shows
    "dictionary_vs_linear (speed_improvement (performance_analysis rep)) =
       (if 0 < elapsed rep DictionaryLookup
        then format_2f (float_div (elapsed rep LinearSearch) (elapsed rep DictionaryLookup))
               @ ''x faster''
        else ''N/A'') \<and>
     binary_vs_linear (speed_improvement (performance_analysis rep)) =
       (if 0 < elapsed rep BinarySearch
        then format_2f (float_div (elapsed rep LinearSearch) (elapsed rep BinarySearch))
               @ ''x faster''
        else ''N/A'') \<and>
     dictionary_vs_binary (speed_improvement (performance_analysis rep)) =
       (if 0 < elapsed rep DictionaryLookup
        then format_2f (float_div (elapsed rep BinarySearch) (elapsed rep DictionaryLookup))
               @ ''x faster''
        else ''N/A'') \<and>
     (0 < elapsed rep DictionaryLookup \<and>
      elapsed rep DictionaryLookup \<le> elapsed rep LinearSearch \<longrightarrow>
        dictionary_vs_linear (speed_improvement (performance_analysis rep)) =
          format_2f (float_div (max (elapsed rep LinearSearch) (elapsed rep DictionaryLookup))
                               (min (elapsed rep LinearSearch) (elapsed rep DictionaryLookup)))
            @ ''x faster'') \<and>
     (0 < elapsed rep BinarySearch \<and>
      elapsed rep BinarySearch \<le> elapsed rep LinearSearch \<longrightarrow>
        binary_vs_linear (speed_improvement (performance_analysis rep)) =
          format_2f (float_div (max (elapsed rep LinearSearch) (elapsed rep BinarySearch))
                               (min (elapsed rep LinearSearch) (elapsed rep BinarySearch)))
            @ ''x faster'') \<and>
     (0 < elapsed rep DictionaryLookup \<and>
      elapsed rep DictionaryLookup \<le> elapsed rep BinarySearch \<longrightarrow>
        dictionary_vs_binary (speed_improvement (performance_analysis rep)) =
          format_2f (float_div (max (elapsed rep BinarySearch) (elapsed rep DictionaryLookup))
                               (min (elapsed rep BinarySearch) (elapsed rep DictionaryLookup)))
            @ ''x faster'')"
  unfolding compare_analysis(3-5)[OF assms] speed_ratio_def
  by (simp add: min_def max_def)

theorem speed_ratio_operands_witness:
  "(\<exists>rep k'. compare_algorithms example_clock empty_engine example_heap 1 0 =
       Inr (rep, k') \<and>
     elapsed rep LinearSearch = 1 \<and> elapsed rep DictionaryLookup = 2 \<and>
     elapsed rep BinarySearch = 3 \<and>
     dictionary_vs_linear (speed_improvement (performance_analysis rep)) = ''0.50x faster'' \<and>
     binary_vs_linear (speed_improvement (performance_analysis rep)) = ''0.33x faster'' \<and>
     dictionary_vs_binary (speed_improvement (performance_analysis rep)) = ''1.50x faster'' \<and>
     dictionary_vs_binary (speed_improvement (performance_analysis rep)) =
       format_2f (float_div (max (elapsed rep BinarySearch) (elapsed rep DictionaryLookup))
                            (min (elapsed rep BinarySearch) (elapsed rep DictionaryLookup)))
         @ ''x faster'') \<and>
   (\<exists>rep k'. compare_algorithms example_frozen_clock empty_engine example_heap 1 0 =
       Inr (rep, k') \<and>
     elapsed rep DictionaryLookup = 0 \<and> elapsed rep BinarySearch = 0 \<and>
     dictionary_vs_linear (speed_improvement (performance_analysis rep)) = ''N/A'' \<and>
     binary_vs_linear (speed_improvement (performance_analysis rep)) = ''N/A'' \<and>
     dictionary_vs_binary (speed_improvement (performance_analysis rep)) = ''N/A'')"
proof (rule conjI)
  from compare_empty_total obtain rep where
    c: "compare_algorithms example_clock empty_engine example_heap 1 0 = Inr (rep, 0 + 6)"
    by blast
  have el: "elapsed rep LinearSearch = 1" "elapsed rep DictionaryLookup = 2"
    "elapsed rep BinarySearch = 3"
    using compare_elapsed(1-3)[OF c] by (simp_all add: example_clock_def float_sub_examples)
  note inst = speed_ratio_operands[OF c, unfolded el]
  have ex: "format_2f (float_div 1 2) @ ''x faster'' = ''0.50x faster''"
    "format_2f (float_div 1 3) @ ''x faster'' = ''0.33x faster''"
    "format_2f (float_div 3 2) @ ''x faster'' = ''1.50x faster''"
    using speed_ratio_examples(1-3) by (simp_all add: speed_ratio_def)
  have a: "dictionary_vs_linear (speed_improvement (performance_analysis rep)) =
      ''0.50x faster''"
    using inst ex by simp
  have b: "binary_vs_linear (speed_improvement (performance_analysis rep)) = ''0.33x faster''"
    using inst ex by simp
  have d: "dictionary_vs_binary (speed_improvement (performance_analysis rep)) =
      ''1.50x faster''"
    using inst ex by simp
  have e: "dictionary_vs_binary (speed_improvement (performance_analysis rep)) =
       format_2f (float_div (max (elapsed rep BinarySearch) (elapsed rep DictionaryLookup))
                            (min (elapsed rep BinarySearch) (elapsed rep DictionaryLookup)))
         @ ''x faster''"
    using speed_ratio_operands[OF c] el by simp
  show "\<exists>rep k'. compare_algorithms example_clock empty_engine example_heap 1 0 =
       Inr (rep, k') \<and>
     elapsed rep LinearSearch = 1 \<and> elapsed rep DictionaryLookup = 2 \<and>
     elapsed rep BinarySearch = 3 \<and>
     dictionary_vs_linear (speed_improvement (performance_analysis rep)) = ''0.50x faster'' \<and>
     binary_vs_linear (speed_improvement (performance_analysis rep)) = ''0.33x faster'' \<and>
     dictionary_vs_binary (speed_improvement (performance_analysis rep)) = ''1.50x faster'' \<and>
     dictionary_vs_binary (speed_improvement (performance_analysis rep)) =
       format_2f (float_div (max (elapsed rep BinarySearch) (elapsed rep DictionaryLookup))
                            (min (elapsed rep BinarySearch) (elapsed rep DictionaryLookup)))
         @ ''x faster''"
    using c el a b d e by blast
next
  from compare_empty_total obtain rep where
    c: "compare_algorithms example_frozen_clock empty_engine example_heap 1 0 = Inr (rep, 0 + 6)"
    by blast
  have el: "elapsed rep DictionaryLookup = 0" "elapsed rep BinarySearch = 0"
    using compare_elapsed(2,3)[OF c]
    by (simp_all add: example_frozen_clock_def float_sub_examples)
  from speed_ratio_operands[OF c]
  have "dictionary_vs_linear (speed_improvement (performance_analysis rep)) = ''N/A''"
    and "binary_vs_linear (speed_improvement (performance_analysis rep)) = ''N/A''"
    and "dictionary_vs_binary (speed_improvement (performance_analysis rep)) = ''N/A''"
    by (simp_all add: el)
  with c el show "\<exists>rep k'. compare_algorithms example_frozen_clock empty_engine example_heap 1 0 =
       Inr (rep, k') \<and>
     elapsed rep DictionaryLookup = 0 \<and> elapsed rep BinarySearch = 0 \<and>
     dictionary_vs_linear (speed_improvement (performance_analysis rep)) = ''N/A'' \<and>
     binary_vs_linear (speed_improvement (performance_analysis rep)) = ''N/A'' \<and>
     dictionary_vs_binary (speed_improvement (performance_analysis rep)) = ''N/A''"
    by blast
qed

section \<open>Success rate\<close>

lemma compare_linear_found:
  assumes "compare_algorithms clk self h tid k = Inr (rep, k')"
  shows "found (algorithms rep LinearSearch) = (scan h (transactions self) tid \<noteq> None)"
  using compare_found(1)[OF assms, of LinearSearch] compare_found(2)[OF assms]
  by (simp add: linear_search_def Let_def)

lemma bench_loop_linear_hits:
  "bench_loop clk self h ids br k = Inr (br', k') \<Longrightarrow>
   \<exists>new. detailed_results br' = detailed_results br @ new \<and>
     hits LinearSearch new =
       length (filter (\<lambda>tid. scan h (transactions self) tid \<noteq> None) ids)"
proof (induction ids arbitrary: br k)
  case Nil
  then show ?case by (simp add: hits_def)
next
  case (Cons test_id rest)
  from Cons.prems obtain cmp k1 where
    c: "compare_algorithms clk self h test_id k = Inr (cmp, k1)"
    and r: "bench_loop clk self h rest
            (br\<lparr>detailed_results := detailed_results br @ [cmp],
                bench_algorithms := aggregate cmp (bench_algorithms br)\<rparr>) k1 = Inr (br', k')"
    by (auto split: sum.splits)
  from Cons.IH[OF r] obtain new where
    d: "detailed_results br' = (detailed_results br @ [cmp]) @ new"
    and n: "hits LinearSearch new =
       length (filter (\<lambda>tid. scan h (transactions self) tid \<noteq> None) rest)"
    by auto
  have "hits LinearSearch (cmp # new) =
       length (filter (\<lambda>tid. scan h (transactions self) tid \<noteq> None) (test_id # rest))"
    using n compare_linear_found[OF c] hits_append[of LinearSearch "[cmp]" new]
    by (simp add: hits_single)
  moreover have "detailed_results br' = detailed_results br @ (cmp # new)" using d by simp
  ultimately show ?case by blast
qed

lemma benchmark_linear_hits:
  assumes "benchmark_algorithms clk self h test_ids k = Inr (br, k')"
  shows "hits LinearSearch (detailed_results br) =
       length (filter (\<lambda>tid. scan h (transactions self) tid \<noteq> None) test_ids)"
proof -
  let ?br0 = "\<lparr>test_cases = length test_ids,
             bench_dataset_size = length (transactions self),
             bench_algorithms = (\<lambda>name. \<lparr>total_time = 0, avg_time = 0, success_rate = 0\<rparr>),
             detailed_results = []\<rparr>"
  from assms obtain br1 st where
    loop: "bench_loop clk self h test_ids ?br0 k = Inr (br1, k')"
    and br: "br = br1\<lparr>bench_algorithms := st\<rparr>"
    by (auto simp: benchmark_algorithms_def Let_def split: sum.splits)
  from bench_loop_linear_hits[OF loop] show ?thesis using br by auto
qed

lemma example_scans:
  "length (filter (\<lambda>tid. scan example_built_heap (transactions example_built_engine) tid
             \<noteq> None) example_batch) = 1"
  by (simp add: example_batch_def example_built_engine_def example_built_heap_def
      example_heap_def)

lemma float_third_percent:
  "float_mul (float_div 1 3) 100 = 2345624805922133 / 70368744177664"
proof -
  have a: "float_div 1 3 = 6004799503160661 / 18014398509481984" by code_simp
  have b: "float_mul (6004799503160661 / 18014398509481984) 100 =
      2345624805922133 / 70368744177664" by code_simp
  show ?thesis unfolding a by (rule b)
qed

lemma example_benchmark_run:
  "\<exists>k'. benchmark_algorithms example_clock example_built_engine example_built_heap
          example_batch 0 = Inr (example_benchmark, k')"
proof -
  have "example_batch \<noteq> []" by (simp add: example_batch_def)
  from benchmark_total[OF built_engine_bisect[OF example_built] this] obtain br k' where
    b: "benchmark_algorithms example_clock example_built_engine example_built_heap
          example_batch 0 = Inr (br, k')" by blast
  then have "example_benchmark = br" by (simp add: example_benchmark_def)
  with b show ?thesis by blast
qed

text \<open>
  Claim C3, counterexample. On the example engine the batch of three identifiers has
  three Comparison Reports, in one of which the linear search found a record. The count
  over the batch size is 1/3; the reported \<^verbatim>\<open>success_rate\<close> is the float
  33.33333333333333, which is neither 1/3 nor the quotient 100/3.
\<close>

theorem success_rate_counterexample:
  "length example_batch = 3 \<and>
   hits LinearSearch (detailed_results example_benchmark) = 1 \<and>
   success_rate (bench_algorithms example_benchmark LinearSearch) =
     2345624805922133 / 70368744177664 \<and>
   success_rate (bench_algorithms example_benchmark LinearSearch) \<noteq> 1 / 3 \<and>
   success_rate (bench_algorithms example_benchmark LinearSearch) \<noteq> 100 / 3"
proof -
  from example_benchmark_run obtain k' where
    b: "benchmark_algorithms example_clock example_built_engine example_built_heap
          example_batch 0 = Inr (example_benchmark, k')" by blast
  have len: "length example_batch = 3" by (simp add: example_batch_def)
  have h1: "hits LinearSearch (detailed_results example_benchmark) = 1"
    using benchmark_linear_hits[OF b] example_scans by simp
  have "success_rate (bench_algorithms example_benchmark LinearSearch) =
      float_mul (float_div (of_nat 1) (of_nat 3)) 100"
    using benchmark_Inr(3)[OF b, of LinearSearch] unfolding h1 len .
  then have r: "success_rate (bench_algorithms example_benchmark LinearSearch) =
      2345624805922133 / 70368744177664"
    using float_third_percent by simp
  show ?thesis unfolding r using len h1 by simp
qed

text \<open>
  Claim C3, amended. On an engine built by the constructor, \<^verbatim>\<open>benchmark_algorithms\<close>
  with a batch of n >= 1 identifiers returns a report with n Comparison Reports, and the
  \<^verbatim>\<open>success_rate\<close> of each strategy is exactly the float that Python computes for
  \<^verbatim>\<open>(count / n) * 100\<close>, where count is the number of those reports in which the strategy
  found a record: count over n rounded to the nearest float, times 100, rounded to the
  nearest float again.
\<close>

theorem success_rate_percentage:
  assumes "SearchAlgorithms_init store h = Inr (self, h')" and "test_ids \<noteq> []"
  shows "\<exists>br k'. benchmark_algorithms clk self h' test_ids k = Inr (br, k') \<and>
           length (detailed_results br) = length test_ids \<and>
           (\<forall>a. success_rate (bench_algorithms br a) =
                 float_mul (float_div (of_nat (hits a (detailed_results br)))
                              (of_nat (length test_ids))) 100)"
proof -
  from benchmark_total[OF built_engine_bisect[OF assms(1)] assms(2)] obtain br k' where
    b: "benchmark_algorithms clk self h' test_ids k = Inr (br, k')" by blast
  from b benchmark_Inr(2,3)[OF b] show ?thesis by blast
qed

theorem success_rate_percentage_witness:
  "SearchAlgorithms_init example_store example_heap =
     Inr (example_built_engine, example_built_heap) \<and> example_batch \<noteq> [] \<and>
   (\<exists>br k'. benchmark_algorithms example_clock example_built_engine example_built_heap
              example_batch 0 = Inr (br, k') \<and>
      length (detailed_results br) = 3 \<and>
      hits LinearSearch (detailed_results br) = 1 \<and>
      success_rate (bench_algorithms br LinearSearch) =
        2345624805922133 / 70368744177664)"
proof -
  have ne: "example_batch \<noteq> []" by (simp add: example_batch_def)
  have len: "length example_batch = 3" by (simp add: example_batch_def)
  from success_rate_percentage[OF example_built ne, of example_clock 0] obtain br k' where
    b: "benchmark_algorithms example_clock example_built_engine example_built_heap
          example_batch 0 = Inr (br, k')"
    and l: "length (detailed_results br) = length example_batch"
    and r: "success_rate (bench_algorithms br LinearSearch) =
         float_mul (float_div (of_nat (hits LinearSearch (detailed_results br)))
                      (of_nat (length example_batch))) 100"
    by blast
  have h1: "hits LinearSearch (detailed_results br) = 1"
    using benchmark_linear_hits[OF b] example_scans by simp
  have "success_rate (bench_algorithms br LinearSearch) =
      float_mul (float_div (of_nat 1) (of_nat 3)) 100"
    using r unfolding h1 len .
  then have v: "success_rate (bench_algorithms br LinearSearch) =
      2345624805922133 / 70368744177664"
    using float_third_percent by simp
  have l3: "length (detailed_results br) = 3" using l len by simp
  from b l3 h1 v have "\<exists>br k'. benchmark_algorithms example_clock example_built_engine
              example_built_heap example_batch 0 = Inr (br, k') \<and>
      length (detailed_results br) = 3 \<and>
      hits LinearSearch (detailed_results br) = 1 \<and>
      success_rate (bench_algorithms br LinearSearch) =
        2345624805922133 / 70368744177664" by blast
  with example_built ne show ?thesis by blast
qed

section \<open>Uniqueness of identifiers under the API's mutators\<close>














end
